theory Spec2Isabelle
  imports Main "HOL-Library.AList"
begin

section \<open>The state proxy of \<open>internal/client/proxy.js\<close>\<close>

text \<open>
  The development embeds \<open>proxy\<close>, the six traps of \<open>state_proxy_handler\<close>,
  \<open>get_proxied_value\<close> and \<open>is\<close> as functions over an explicit JavaScript heap.
  The production build is modelled: every \<open>if (DEV)\<close> block (ownership bookkeeping,
  the \<open>setPrototypeOf\<close> trap) is left out, and with it the \<open>parent\<close> and \<open>prev\<close>
  arguments of \<open>proxy\<close>, which only those blocks read.

  The traps are modelled as the functions they are. What the host does around a trap
  (the invariants that a \<open>Proxy\<close> enforces on a trap's result) is not part of them.
  The module imports the reactive cell (\<open>source\<close>, \<open>set\<close>, \<open>get\<close>), the error
  \<open>state_descriptors_fixed\<close>, the two symbols and the aliases of \<open>shared/utils.js\<close>
  from other modules; they are modelled from the specification, each where it is
  defined below.
\<close>

subsection \<open>Values, property keys and raw objects\<close>

text \<open>
  A property key is a string or a symbol; \<open>STATE_SYMBOL\<close> is the symbol of
  \<open>constants.js\<close>, the hidden marker of the specification, under which the metadata
  record hangs on a wrapped target.
\<close>

datatype pkey = Str string | Symb nat | STATE_SYMBOL

text \<open>
  JavaScript values. Numbers are mathematical integers (array indices and lengths; no
  NaN, no fractions). \<open>Obj a\<close> is the raw object at heap address \<open>a\<close>, \<open>Prox i\<close> the
  \<open>i\<close>-th object made by \<open>new Proxy\<close>, \<open>Meta m\<close> the \<open>m\<close>-th metadata record and
  \<open>Builtin k\<close> the value a built-in prototype holds under key \<open>k\<close>.
\<close>

datatype val =
    Undefined | Null | Bool bool | Num int | Text string
  | Obj nat | Prox nat | Meta nat | Builtin pkey

text \<open>
  What a source (a reactive cell) holds: a value, or \<open>UNINITIALIZED\<close> of
  \<open>constants.js\<close>, the tombstone of the specification, "a distinguished value
  distinct from any legal property value".
\<close>

datatype cell = UNINITIALIZED | Live val

text \<open>
  An own property of a raw object: a data property with its value and its \<open>writable\<close>
  attribute, or an accessor property. Accessor bodies are opaque: a getter is the
  value it returns (if there is a getter), a setter only the fact that it exists.
\<close>

datatype slot = Data val bool | Accessor "val option" bool

datatype prototype = object_prototype | array_prototype | other_prototype

text \<open>
  A raw object: its own properties in the order of \<open>Reflect.ownKeys\<close> (an array
  carries its indices and then \<open>length\<close>), the metadata record under \<open>STATE_SYMBOL\<close>
  if there is one, its prototype, \<open>Array.isArray\<close> and \<open>Object.isFrozen\<close> (which
  \<open>is_array\<close>, \<open>is_frozen\<close> and \<open>get_prototype_of\<close> of \<open>shared/utils.js\<close> are taken
  to be). The marker is kept apart from \<open>props\<close>, whose keys are the other keys.
\<close>

record obj =
  props :: "(pkey \<times> slot) list"
  marker :: "nat option"
  proto :: prototype
  is_array :: bool
  is_frozen :: bool

text \<open>
  The \<open>ProxyMetadata\<close> record \<open>{s, v, a, p, t}\<close>. The map \<open>s\<close> from keys to sources is
  an association list in insertion order (the iteration order of a JavaScript \<open>Map\<close>);
  a source is never shared between keys, so it is identified by its key and
  represented by its current value \<open>.v\<close>. \<open>v\<close> is the value of the version source.
\<close>

record metadata =
  meta_s :: "(pkey \<times> cell) list"
  meta_v :: int
  meta_a :: bool
  meta_p :: val
  meta_t :: val

text \<open>
  The calls that leave the module are recorded in a trace, oldest first: \<open>get(s)\<close>
  and \<open>set(s, x)\<close> of \<open>runtime.js\<close> and \<open>reactivity/sources.js\<close> on the source of a
  key or on the version source of a metadata record, and the calls of a raw
  object's own getter or setter.
\<close>

datatype cellref = Prop pkey | Version

datatype event =
    Read nat cellref
  | Write nat cellref cell
  | GetterCall nat pkey
  | SetterCall nat pkey val

text \<open>
  The heap: raw objects by address, metadata records and proxies by order of
  creation (a proxy is its target's address), whether \<open>current_effect\<close> is non-null,
  and the trace.
\<close>

record state =
  objs :: "obj list"
  metas :: "metadata list"
  proxies :: "nat list"
  current_effect :: bool
  trace :: "event list"

datatype error = TypeError | state_descriptors_fixed

datatype 'a outcome = Returned 'a | Threw error

definition nth_opt :: "'a list \<Rightarrow> nat \<Rightarrow> 'a option" where
  "nth_opt xs i = (if i < length xs then Some (xs ! i) else None)"

subsection \<open>Host operations on raw objects\<close>

text \<open>
  The keys that \<open>key in target\<close> finds on the built-in prototypes (the own property
  names of \<open>Object.prototype\<close> and \<open>Array.prototype\<close> in ECMAScript 2023;
  \<open>Symb 0\<close> and \<open>Symb 1\<close> stand for \<open>Symbol.iterator\<close> and \<open>Symbol.unscopables\<close>).
  An object with another prototype is never wrapped; its inherited keys are not
  modelled.
\<close>

definition object_prototype_keys :: "pkey list" where
  "object_prototype_keys = map Str
     [''constructor'', ''__defineGetter__'', ''__defineSetter__'', ''hasOwnProperty'',
      ''__lookupGetter__'', ''__lookupSetter__'', ''isPrototypeOf'',
      ''propertyIsEnumerable'', ''toString'', ''valueOf'', ''__proto__'',
      ''toLocaleString'']"

definition array_prototype_keys :: "pkey list" where
  "array_prototype_keys = map Str
     [''length'', ''constructor'', ''at'', ''concat'', ''copyWithin'', ''fill'', ''find'',
      ''findIndex'', ''findLast'', ''findLastIndex'', ''lastIndexOf'', ''pop'', ''push'',
      ''reverse'', ''shift'', ''unshift'', ''slice'', ''sort'', ''splice'', ''includes'',
      ''indexOf'', ''join'', ''keys'', ''entries'', ''values'', ''forEach'', ''filter'',
      ''flat'', ''flatMap'', ''map'', ''every'', ''some'', ''reduce'', ''reduceRight'',
      ''toLocaleString'', ''toString'', ''toReversed'', ''toSorted'', ''toSpliced'',
      ''with''] @ [Symb 0, Symb 1]"

fun proto_keys :: "prototype \<Rightarrow> pkey list" where
  "proto_keys object_prototype = object_prototype_keys"
| "proto_keys array_prototype = array_prototype_keys @ object_prototype_keys"
| "proto_keys other_prototype = []"

definition get_descriptor :: "obj \<Rightarrow> pkey \<Rightarrow> slot option" where
  \<comment> \<open>Modelled from the spec: \<open>get_descriptor\<close> of \<open>shared/utils.js\<close>, taken to be
      \<open>Object.getOwnPropertyDescriptor\<close>, the own descriptor that the specification's
      "its descriptor is writable" reads; also \<open>Reflect.getOwnPropertyDescriptor\<close>.
      \<open>proxy\<close> defines the marker writable.\<close>
  "get_descriptor ob k =
     (if k = STATE_SYMBOL then map_option (\<lambda>m. Data (Meta m) True) (marker ob)
      else map_of (props ob) k)"

definition own_keys :: "obj \<Rightarrow> pkey list" where
  \<comment> \<open>\<open>Reflect.ownKeys(target)\<close>\<close>
  "own_keys ob =
     filter (\<lambda>k. k \<noteq> STATE_SYMBOL) (map fst (props ob))
     @ (case marker ob of None \<Rightarrow> [] | Some m \<Rightarrow> [STATE_SYMBOL])"

definition key_in :: "obj \<Rightarrow> pkey \<Rightarrow> bool" where
  \<comment> \<open>\<open>prop in target\<close> and \<open>Reflect.has(target, prop)\<close>: own or inherited\<close>
  "key_in ob k = (get_descriptor ob k \<noteq> None \<or> k \<in> set (proto_keys (proto ob)))"

definition writable :: "slot option \<Rightarrow> bool" where
  \<comment> \<open>the truth value of \<open>descriptor?.writable\<close>\<close>
  "writable d = (case d of Some (Data x w) \<Rightarrow> w | _ \<Rightarrow> False)"

definition has_setter :: "slot option \<Rightarrow> bool" where
  \<comment> \<open>the truth value of \<open>descriptor?.set\<close>\<close>
  "has_setter d = (case d of Some (Accessor g st) \<Rightarrow> st | _ \<Rightarrow> False)"

definition data_value :: "obj \<Rightarrow> pkey \<Rightarrow> val" where
  \<comment> \<open>\<open>target[prop]\<close> where the traps read it: on an own writable data property\<close>
  "data_value ob k = (case get_descriptor ob k of Some (Data x w) \<Rightarrow> x | _ \<Rightarrow> Undefined)"

definition Reflect_get :: "nat \<Rightarrow> obj \<Rightarrow> pkey \<Rightarrow> state \<Rightarrow> val \<times> state" where
  \<comment> \<open>\<open>Reflect.get(target, prop, receiver)\<close>\<close>
  "Reflect_get target ob k \<sigma> =
     (case get_descriptor ob k of
        Some (Data x w) \<Rightarrow> (x, \<sigma>)
      | Some (Accessor g st) \<Rightarrow>
          (case g of
             None \<Rightarrow> (Undefined, \<sigma>)
           | Some x \<Rightarrow> (x, \<sigma>\<lparr>trace := trace \<sigma> @ [GetterCall target k]\<rparr>))
      | None \<Rightarrow> (if k \<in> set (proto_keys (proto ob)) then Builtin k else Undefined, \<sigma>))"

subsection \<open>Numbers and strings\<close>

definition digit_chars :: string where
  "digit_chars = ''0123456789''"

fun string_of_nat :: "nat \<Rightarrow> string" where
  "string_of_nat n =
     (if n < 10 then [digit_chars ! n]
      else string_of_nat (n div 10) @ [digit_chars ! (n mod 10)])"

definition string_of_int :: "int \<Rightarrow> string" where
  \<comment> \<open>\<open>i + ''\<close> for an integer \<open>i\<close>\<close>
  "string_of_int i =
     (if i < 0 then CHR ''-'' # string_of_nat (nat (- i)) else string_of_nat (nat i))"

definition digit_of :: "char \<Rightarrow> nat option" where
  "digit_of c = map_of (zip digit_chars [0, 1, 2, 3, 4, 5, 6, 7, 8, 9]) c"

fun nat_of_digits :: "nat \<Rightarrow> string \<Rightarrow> nat option" where
  "nat_of_digits acc [] = Some acc"
| "nat_of_digits acc (c # cs) =
     (case digit_of c of None \<Rightarrow> None | Some d \<Rightarrow> nat_of_digits (10 * acc + d) cs)"

definition Number_integer :: "string \<Rightarrow> int option" where
  \<comment> \<open>\<open>n = Number(prop)\<close> when \<open>Number.isInteger(n)\<close>, else \<open>None\<close>. Covers the empty
      string (which is 0) and signed decimal digit strings; the other spellings that
      \<open>Number\<close> reads as an integer (surrounding white space, a radix prefix, an
      exponent, a zero fraction) are taken as non-integers.\<close>
  "Number_integer str =
     (case str of
        [] \<Rightarrow> Some 0
      | c # cs \<Rightarrow>
          if c = CHR ''-'' \<and> cs \<noteq> [] then map_option (\<lambda>n. - int n) (nat_of_digits 0 cs)
          else if c = CHR ''+'' \<and> cs \<noteq> [] then map_option int (nat_of_digits 0 cs)
          else map_option int (nat_of_digits 0 str))"

definition to_number :: "val \<Rightarrow> int option" where
  \<comment> \<open>the numeric value a relational operator gives a value; \<open>None\<close> is NaN\<close>
  "to_number x =
     (case x of
        Num n \<Rightarrow> Some n
      | Null \<Rightarrow> Some 0
      | Bool b \<Rightarrow> Some (if b then 1 else 0)
      | Text str \<Rightarrow> Number_integer str
      | _ \<Rightarrow> None)"

subsection \<open>The wrapper factory\<close>

definition state_symbol_of :: "state \<Rightarrow> val \<Rightarrow> nat option" where
  \<comment> \<open>the metadata record that \<open>value[STATE_SYMBOL]\<close> yields when \<open>value\<close> is an object with
      \<open>STATE_SYMBOL in value\<close>; on a proxy both go through the \<open>has\<close> and \<open>get\<close>
      traps, which answer for the target\<close>
  "state_symbol_of \<sigma> x =
     (case x of
        Obj a \<Rightarrow> (case nth_opt (objs \<sigma>) a of None \<Rightarrow> None | Some ob \<Rightarrow> marker ob)
      | Prox i \<Rightarrow>
          (case nth_opt (proxies \<sigma>) i of
             None \<Rightarrow> None
           | Some a \<Rightarrow> (case nth_opt (objs \<sigma>) a of None \<Rightarrow> None | Some ob \<Rightarrow> marker ob))
      | _ \<Rightarrow> None)"

definition existing_proxy :: "state \<Rightarrow> val \<Rightarrow> val option" where
  \<comment> \<open>lines 29-44: the proxy of a marker that belongs to \<open>value\<close>\<close>
  "existing_proxy \<sigma> x =
     (case state_symbol_of \<sigma> x of
        None \<Rightarrow> None
      | Some m \<Rightarrow>
          (case nth_opt (metas \<sigma>) m of
             None \<Rightarrow> None
           | Some md \<Rightarrow> if meta_t md = x \<or> meta_p md = x then Some (meta_p md) else None))"

definition proxy :: "val \<Rightarrow> state \<Rightarrow> val \<times> state" where
  \<comment> \<open>\<open>proxy(value)\<close>. A reference to nothing, and a proxy whose target's marker
      does not name it (no call of this module leaves one behind), are returned as
      they are; so is a metadata record, which is no heap object here.\<close>
  "proxy x \<sigma> =
     (case x of
        Obj a \<Rightarrow>
          (case nth_opt (objs \<sigma>) a of
             None \<Rightarrow> (x, \<sigma>)
           | Some ob \<Rightarrow>
               if is_frozen ob then (x, \<sigma>)
               else
                 (case existing_proxy \<sigma> x of
                    Some p \<Rightarrow> (p, \<sigma>)
                  | None \<Rightarrow>
                      if proto ob = object_prototype \<or> proto ob = array_prototype then
                        (Prox (length (proxies \<sigma>)),
                         \<sigma>\<lparr>objs := (objs \<sigma>)[a := ob\<lparr>marker := Some (length (metas \<sigma>))\<rparr>],
                           metas := metas \<sigma> @
                             [\<lparr>meta_s = [], meta_v = 0, meta_a = is_array ob,
                               meta_p = Prox (length (proxies \<sigma>)), meta_t = x\<rparr>],
                           proxies := proxies \<sigma> @ [a]\<rparr>)
                      else (x, \<sigma>)))
      | Prox i \<Rightarrow>
          (case nth_opt (proxies \<sigma>) i of
             None \<Rightarrow> (x, \<sigma>)
           | Some a \<Rightarrow>
               (case nth_opt (objs \<sigma>) a of
                  None \<Rightarrow> (x, \<sigma>)
                | Some ob \<Rightarrow>
                    if is_frozen ob then (x, \<sigma>)
                    else (case existing_proxy \<sigma> x of Some p \<Rightarrow> (p, \<sigma>) | None \<Rightarrow> (x, \<sigma>))))
      | _ \<Rightarrow> (x, \<sigma>))"



subsection \<open>Sources\<close>

definition target_metadata :: "state \<Rightarrow> nat \<Rightarrow> (obj \<times> nat \<times> metadata) option" where
  \<comment> \<open>\<open>var metadata = target[STATE_SYMBOL]\<close>: the target, the record's index and the
      record; \<open>None\<close> where the traps would read a field of \<open>undefined\<close>\<close>
  "target_metadata \<sigma> target =
     (case nth_opt (objs \<sigma>) target of
        None \<Rightarrow> None
      | Some ob \<Rightarrow>
          (case marker ob of
             None \<Rightarrow> None
           | Some m \<Rightarrow>
               (case nth_opt (metas \<sigma>) m of None \<Rightarrow> None | Some md \<Rightarrow> Some (ob, m, md))))"

definition source_v :: "state \<Rightarrow> nat \<Rightarrow> pkey \<Rightarrow> cell option" where
  \<comment> \<open>\<open>metadata.s.get(prop)\<close>, as the value \<open>.v\<close> of the source found\<close>
  "source_v \<sigma> m k =
     (case nth_opt (metas \<sigma>) m of None \<Rightarrow> None | Some md \<Rightarrow> map_of (meta_s md) k)"

text \<open>
  The reactive cell of \<open>reactivity/sources.js\<close> and \<open>runtime.js\<close> is an external
  collaborator of the specification, given by its contract: \<open>create(initial)\<close>,
  \<open>read(cell)\<close>, which yields the value and registers a dependency, and
  \<open>write(cell, value)\<close>, which stores the value and notifies the dependents.
\<close>

definition store :: "nat \<Rightarrow> pkey \<Rightarrow> cell \<Rightarrow> state \<Rightarrow> state" where
  \<comment> \<open>the source of \<open>k\<close> holds \<open>c\<close>: an existing entry is overwritten in place, a new
      one goes to the end of the map\<close>
  "store m k c \<sigma> =
     (case nth_opt (metas \<sigma>) m of
        None \<Rightarrow> \<sigma>
      | Some md \<Rightarrow> \<sigma>\<lparr>metas := (metas \<sigma>)[m := md\<lparr>meta_s := AList.update k c (meta_s md)\<rparr>]\<rparr>)"

definition new_source :: "nat \<Rightarrow> pkey \<Rightarrow> cell \<Rightarrow> state \<Rightarrow> state" where
  \<comment> \<open>Modelled from the spec: \<open>source\<close> of \<open>reactivity/sources.js\<close>, the
      \<open>create(initial)\<close> of the reactive cell, in
      \<open>s = source(c); metadata.s.set(prop, s)\<close>\<close>
  "new_source m k c \<sigma> = store m k c \<sigma>"

definition source_set :: "nat \<Rightarrow> pkey \<Rightarrow> cell \<Rightarrow> state \<Rightarrow> state" where
  \<comment> \<open>Modelled from the spec: \<open>set\<close> of \<open>reactivity/sources.js\<close>, the
      \<open>write(cell, value)\<close> of the reactive cell, in \<open>set(s, c)\<close> on the source of
      \<open>k\<close>: the value is stored and the write is recorded\<close>
  "source_set m k c \<sigma> = (store m k c \<sigma>)\<lparr>trace := trace \<sigma> @ [Write m (Prop k) c]\<rparr>"

definition source_get :: "nat \<Rightarrow> cellref \<Rightarrow> state \<Rightarrow> state" where
  \<comment> \<open>Modelled from the spec: \<open>get\<close> of \<open>runtime.js\<close>, the \<open>read(cell)\<close> of the
      reactive cell: the dependency that \<open>get(s)\<close> registers\<close>
  "source_get m r \<sigma> = \<sigma>\<lparr>trace := trace \<sigma> @ [Read m r]\<rparr>"

definition update_version :: "nat \<Rightarrow> state \<Rightarrow> state" where
  \<comment> \<open>\<open>update_version(metadata.v)\<close>, that is \<open>set(signal, signal.v + 1)\<close>\<close>
  "update_version m \<sigma> =
     (case nth_opt (metas \<sigma>) m of
        None \<Rightarrow> \<sigma>
      | Some md \<Rightarrow>
          \<sigma>\<lparr>metas := (metas \<sigma>)[m := md\<lparr>meta_v := meta_v md + 1\<rparr>],
            trace := trace \<sigma> @ [Write m Version (Live (Num (meta_v md + 1)))]\<rparr>)"

subsection \<open>The traps of \<open>state_proxy_handler\<close>\<close>

text \<open>
  The descriptor a \<open>defineProperty\<close> trap receives: it has a \<open>value\<close> field, or
  \<open>get\<close>/\<open>set\<close> fields, or neither, and each attribute is absent, \<open>true\<close> or
  \<open>false\<close>.
\<close>

datatype descriptor_fields = value_field val | accessor_fields | no_fields

record descriptor =
  d_fields :: descriptor_fields
  d_configurable :: "bool option"
  d_enumerable :: "bool option"
  d_writable :: "bool option"

definition value_in :: "descriptor \<Rightarrow> bool" where
  \<comment> \<open>\<open>'value' in descriptor\<close>\<close>
  "value_in d = (case d_fields d of value_field x \<Rightarrow> True | _ \<Rightarrow> False)"

definition descriptor_value :: "descriptor \<Rightarrow> val" where
  \<comment> \<open>\<open>descriptor.value\<close>\<close>
  "descriptor_value d = (case d_fields d of value_field x \<Rightarrow> x | _ \<Rightarrow> Undefined)"

definition e_state_descriptors_fixed :: "state \<Rightarrow> bool outcome \<times> state" where
  \<comment> \<open>Modelled from the spec: \<open>e.state_descriptors_fixed\<close> of \<open>errors.js\<close>; the
      unsupported descriptor is "signaled immediately, operation aborted, no state
      mutated"\<close>
  "e_state_descriptors_fixed \<sigma> = (Threw state_descriptors_fixed, \<sigma>)"

definition set_proxied :: "nat \<Rightarrow> pkey \<Rightarrow> val \<Rightarrow> state \<Rightarrow> state" where
  \<comment> \<open>\<open>set(s, proxy(value, metadata))\<close> on the source of \<open>prop\<close>\<close>
  "set_proxied m prop x \<sigma> = (case proxy x \<sigma> of (w, \<sigma>1) \<Rightarrow> source_set m prop (Live w) \<sigma>1)"

definition handler_defineProperty ::
  "nat \<Rightarrow> pkey \<Rightarrow> descriptor \<Rightarrow> state \<Rightarrow> bool outcome \<times> state" where
  "handler_defineProperty target prop d \<sigma> =
     (if \<not> value_in d \<or> d_configurable d = Some False \<or> d_enumerable d = Some False
         \<or> d_writable d = Some False
      then e_state_descriptors_fixed \<sigma>
      else
        (case target_metadata \<sigma> target of
           None \<Rightarrow> (Threw TypeError, \<sigma>)
         | Some (ob, m, md) \<Rightarrow>
             (case map_of (meta_s md) prop of
                None \<Rightarrow> (Returned True, new_source m prop (Live (descriptor_value d)) \<sigma>)
              | Some c \<Rightarrow> (Returned True, set_proxied m prop (descriptor_value d) \<sigma>))))"

definition handler_deleteProperty :: "nat \<Rightarrow> pkey \<Rightarrow> state \<Rightarrow> bool outcome \<times> state" where
  "handler_deleteProperty target prop \<sigma> =
     (case target_metadata \<sigma> target of
        None \<Rightarrow> (Threw TypeError, \<sigma>)
      | Some (ob, m, md) \<Rightarrow>
          (let s = map_of (meta_s md) prop;
               exists = (case s of Some c \<Rightarrow> c \<noteq> UNINITIALIZED | None \<Rightarrow> key_in ob prop);
               \<sigma>1 = (if s \<noteq> None then source_set m prop UNINITIALIZED \<sigma> else \<sigma>);
               \<sigma>2 = (if exists then update_version m \<sigma>1 else \<sigma>1)
           in (Returned exists, \<sigma>2)))"

definition create_source :: "obj \<Rightarrow> nat \<Rightarrow> pkey \<Rightarrow> bool \<Rightarrow> state \<Rightarrow> state" where
  \<comment> \<open>lines 156-157 and 210-211:
      \<open>s = source(exists ? proxy(target[prop], metadata) : UNINITIALIZED);
      metadata.s.set(prop, s)\<close> (\<open>proxy\<close> returns the symbol \<open>UNINITIALIZED\<close> as it is)\<close>
  "create_source ob m prop exists \<sigma> =
     (if exists then
        (case proxy (data_value ob prop) \<sigma> of (w, \<sigma>1) \<Rightarrow> new_source m prop (Live w) \<sigma>1)
      else new_source m prop UNINITIALIZED \<sigma>)"

definition handler_get :: "nat \<Rightarrow> pkey \<Rightarrow> state \<Rightarrow> val outcome \<times> state" where
  "handler_get target prop \<sigma> =
     (if prop = STATE_SYMBOL then
        (Returned
           (case state_symbol_of \<sigma> (Obj target) of None \<Rightarrow> Undefined | Some m \<Rightarrow> Meta m),
         \<sigma>)
      else
        (case target_metadata \<sigma> target of
           None \<Rightarrow> (Threw TypeError, \<sigma>)
         | Some (ob, m, md) \<Rightarrow>
             (let exists = key_in ob prop;
                  \<sigma>1 =
                    (if map_of (meta_s md) prop = None
                        \<and> (\<not> exists \<or> writable (get_descriptor ob prop))
                     then create_source ob m prop exists \<sigma> else \<sigma>)
              in (case source_v \<sigma>1 m prop of
                    Some c \<Rightarrow>
                      (Returned (case c of UNINITIALIZED \<Rightarrow> Undefined | Live x \<Rightarrow> x),
                       source_get m (Prop prop) \<sigma>1)
                  | None \<Rightarrow>
                      (case Reflect_get target ob prop \<sigma>1 of
                         (x, \<sigma>2) \<Rightarrow> (Returned x, \<sigma>2))))))"

definition handler_has :: "nat \<Rightarrow> pkey \<Rightarrow> state \<Rightarrow> bool outcome \<times> state" where
  "handler_has target prop \<sigma> =
     (if prop = STATE_SYMBOL then (Returned True, \<sigma>)
      else
        (case target_metadata \<sigma> target of
           None \<Rightarrow> (Threw TypeError, \<sigma>)
         | Some (ob, m, md) \<Rightarrow>
             (let s = map_of (meta_s md) prop;
                  has = ((s \<noteq> None \<and> s \<noteq> Some UNINITIALIZED) \<or> key_in ob prop)
              in if s \<noteq> None
                    \<or> (current_effect \<sigma> \<and> (\<not> has \<or> writable (get_descriptor ob prop)))
                 then
                   (let \<sigma>1 = (if s = None then create_source ob m prop has \<sigma> else \<sigma>);
                        \<sigma>2 = source_get m (Prop prop) \<sigma>1
                    in if source_v \<sigma>1 m prop = Some UNINITIALIZED then (Returned False, \<sigma>2)
                       else (Returned has, \<sigma>2))
                 else (Returned has, \<sigma>))))"

text \<open>The \<open>set\<close> trap, part by part.\<close>

definition write_source :: "obj \<Rightarrow> nat \<Rightarrow> metadata \<Rightarrow> pkey \<Rightarrow> val \<Rightarrow> state \<Rightarrow> state" where
  \<comment> \<open>lines 231-240: the source of \<open>prop\<close> is created where \<open>get\<close> would create it,
      and set to \<open>proxy(value, metadata)\<close>\<close>
  "write_source ob m md prop x \<sigma> =
     (case map_of (meta_s md) prop of
        None \<Rightarrow>
          if \<not> key_in ob prop \<or> writable (get_descriptor ob prop)
          then set_proxied m prop x \<sigma> else \<sigma>
      | Some c \<Rightarrow> set_proxied m prop x \<sigma>)"

definition clear_index :: "nat \<Rightarrow> state \<Rightarrow> int \<Rightarrow> state" where
  \<comment> \<open>lines 255-256, the body of the loop\<close>
  "clear_index m \<sigma> i =
     (if source_v \<sigma> m (Str (string_of_int i)) \<noteq> None
      then source_set m (Str (string_of_int i)) UNINITIALIZED \<sigma> else \<sigma>)"

definition clear_from :: "nat \<Rightarrow> metadata \<Rightarrow> obj \<Rightarrow> pkey \<Rightarrow> val \<Rightarrow> state \<Rightarrow> state" where
  \<comment> \<open>lines 253-258, with the loop
      \<open>for (var i = value; i < target.length; i += 1)\<close> for a number \<open>value\<close>; the
      coercions that the loop applies to another \<open>value\<close> are not modelled, and the
      loop is skipped\<close>
  "clear_from m md ob prop x \<sigma> =
     (if meta_a md \<and> prop = Str ''length'' then
        (case (x, data_value ob (Str ''length'')) of
           (Num i, Num n) \<Rightarrow> foldl (clear_index m) \<sigma> [i..n - 1]
         | _ \<Rightarrow> \<sigma>)
      else \<sigma>)"

definition call_setter :: "nat \<Rightarrow> obj \<Rightarrow> pkey \<Rightarrow> val \<Rightarrow> state \<Rightarrow> state" where
  \<comment> \<open>lines 260-265: \<open>if (descriptor?.set) descriptor.set.call(receiver, value)\<close>\<close>
  "call_setter target ob prop x \<sigma> =
     (if has_setter (get_descriptor ob prop)
      then \<sigma>\<lparr>trace := trace \<sigma> @ [SetterCall target prop x]\<rparr> else \<sigma>)"

definition sync_length :: "nat \<Rightarrow> metadata \<Rightarrow> pkey \<Rightarrow> state \<Rightarrow> state option" where
  \<comment> \<open>lines 272-282; \<open>None\<close> where \<open>n >= ls.v\<close> throws a TypeError, which it does on
      the symbol \<open>UNINITIALIZED\<close>\<close>
  "sync_length m md prop \<sigma> =
     (case prop of
        Str str \<Rightarrow>
          if meta_a md then
            (case source_v \<sigma> m (Str ''length'') of
               None \<Rightarrow> Some \<sigma>
             | Some ls \<Rightarrow>
                 (case Number_integer str of
                    None \<Rightarrow> Some \<sigma>
                  | Some n \<Rightarrow>
                      (case ls of
                         UNINITIALIZED \<Rightarrow> None
                       | Live l \<Rightarrow>
                           (case to_number l of
                              None \<Rightarrow> Some \<sigma>
                            | Some lv \<Rightarrow>
                                if n \<ge> lv
                                then Some (source_set m (Str ''length'') (Live (Num (n + 1))) \<sigma>)
                                else Some \<sigma>))))
          else Some \<sigma>
      | _ \<Rightarrow> Some \<sigma>)"

definition handler_set :: "nat \<Rightarrow> pkey \<Rightarrow> val \<Rightarrow> state \<Rightarrow> bool outcome \<times> state" where
  "handler_set target prop x \<sigma> =
     (case target_metadata \<sigma> target of
        None \<Rightarrow> (Threw TypeError, \<sigma>)
      | Some (ob, m, md) \<Rightarrow>
          (let has =
                 (case map_of (meta_s md) prop of
                    None \<Rightarrow> key_in ob prop
                  | Some c \<Rightarrow> c \<noteq> UNINITIALIZED);
               \<sigma>1 = write_source ob m md prop x \<sigma>;
               \<sigma>2 = clear_from m md ob prop x \<sigma>1;
               \<sigma>3 = call_setter target ob prop x \<sigma>2
           in if has then (Returned True, \<sigma>3)
              else
                (case sync_length m md prop \<sigma>3 of
                   None \<Rightarrow> (Threw TypeError, \<sigma>3)
                 | Some \<sigma>4 \<Rightarrow> (Returned True, update_version m \<sigma>4))))"

definition handler_ownKeys :: "nat \<Rightarrow> state \<Rightarrow> pkey list outcome \<times> state" where
  "handler_ownKeys target \<sigma> =
     (case target_metadata \<sigma> target of
        None \<Rightarrow> (Threw TypeError, \<sigma>)
      | Some (ob, m, md) \<Rightarrow>
          (Returned
             (filter (\<lambda>key. map_of (meta_s md) key \<noteq> Some UNINITIALIZED) (own_keys ob)
              @ map fst
                  (filter (\<lambda>(key, c). c \<noteq> UNINITIALIZED \<and> \<not> key_in ob key) (meta_s md))),
           source_get m Version \<sigma>))"

subsection \<open>Example heaps\<close>

text \<open>
  The array \<open>[1, 2, 3]\<close>, the object \<open>{}\<close> and the object \<open>{ set x(v) {} }\<close> as raw
  objects.
\<close>

definition array_123 :: obj where
  "array_123 =
     \<lparr>props = [(Str ''0'', Data (Num 1) True), (Str ''1'', Data (Num 2) True),
               (Str ''2'', Data (Num 3) True), (Str ''length'', Data (Num 3) True)],
      marker = None, proto = array_prototype, is_array = True, is_frozen = False\<rparr>"

definition empty_object :: obj where
  "empty_object =
     \<lparr>props = [], marker = None, proto = object_prototype, is_array = False,
      is_frozen = False\<rparr>"


definition heap_of :: "obj list \<Rightarrow> state" where
  \<comment> \<open>a heap of raw objects on which nothing has been wrapped yet\<close>
  "heap_of obs =
     \<lparr>objs = obs, metas = [], proxies = [], current_effect = False, trace = []\<rparr>"

definition wrapped :: "obj \<Rightarrow> state" where
  \<comment> \<open>the heap after \<open>w = proxy(ob)\<close> on the only object; \<open>w\<close> is \<open>Prox 0\<close>, its
      target is at address 0\<close>
  "wrapped ob = snd (proxy (Obj 0) (heap_of [ob]))"

definition wrapped_meta :: "bool \<Rightarrow> (pkey \<times> cell) list \<Rightarrow> int \<Rightarrow> metadata" where
  \<comment> \<open>the metadata record of the wrapper in \<open>wrapped ob\<close>, with the given sources and
      version\<close>
  "wrapped_meta arr srcs v =
     \<lparr>meta_s = srcs, meta_v = v, meta_a = arr, meta_p = Prox 0, meta_t = Obj 0\<rparr>"


definition written_heap :: state where
  \<comment> \<open>after \<open>w = proxy({}); w.a = 1\<close>\<close>
  "written_heap = snd (handler_set 0 (Str ''a'') (Num 1) (wrapped empty_object))"




subsection \<open>Notions the claims speak of\<close>

definition version :: "state \<Rightarrow> nat \<Rightarrow> int option" where
  \<comment> \<open>the value of the version source of a metadata record\<close>
  "version \<sigma> m = map_option meta_v (nth_opt (metas \<sigma>) m)"

definition present :: "obj \<Rightarrow> metadata \<Rightarrow> pkey \<Rightarrow> bool" where
  \<comment> \<open>whether a key exists, as \<open>deleteProperty\<close> computes \<open>exists\<close> and \<open>set\<close>
      computes \<open>has\<close>: a source that is not the tombstone, or without a source the
      presence of the key on the target\<close>
  "present ob md k =
     (case map_of (meta_s md) k of Some c \<Rightarrow> c \<noteq> UNINITIALIZED | None \<Rightarrow> key_in ob k)"

definition live :: "metadata \<Rightarrow> pkey \<Rightarrow> bool" where
  \<comment> \<open>the key has a source and it holds a value\<close>
  "live md k = (case map_of (meta_s md) k of Some (Live x) \<Rightarrow> True | _ \<Rightarrow> False)"

definition new_events :: "state \<Rightarrow> state \<Rightarrow> event list" where
  \<comment> \<open>what an operation from \<open>\<sigma>\<close> to \<open>\<sigma>'\<close> added to the trace\<close>
  "new_events \<sigma> \<sigma>' = drop (length (trace \<sigma>)) (trace \<sigma>')"

definition version_write :: "event \<Rightarrow> bool" where
  "version_write e = (case e of Write m Version c \<Rightarrow> True | _ \<Rightarrow> False)"

definition setter_call :: "event \<Rightarrow> bool" where
  "setter_call e = (case e of SetterCall a k x \<Rightarrow> True | _ \<Rightarrow> False)"


definition quiet :: "event list \<Rightarrow> bool" where
  \<comment> \<open>neither a write of a version source nor a setter call\<close>
  "quiet es = list_all (\<lambda>e. \<not> version_write e \<and> \<not> setter_call e) es"


definition linked :: "state \<Rightarrow> metadata \<Rightarrow> bool" where
  \<comment> \<open>a metadata record as \<open>proxy\<close> builds it: \<open>p\<close> is a proxy and \<open>t\<close> is that
      proxy's target\<close>
  "linked \<sigma> md =
     (case meta_p md of
        Prox i \<Rightarrow> (case nth_opt (proxies \<sigma>) i of None \<Rightarrow> False | Some a \<Rightarrow> meta_t md = Obj a)
      | _ \<Rightarrow> False)"

definition well_linked :: "state \<Rightarrow> bool" where
  \<comment> \<open>every metadata record of the heap is linked; a heap without wrappers is, and
      \<open>proxy\<close> and the traps keep a heap so\<close>
  "well_linked \<sigma> = list_all (linked \<sigma>) (metas \<sigma>)"

definition distinct_sources :: "state \<Rightarrow> bool" where
  \<comment> \<open>every source map has each key once, as a \<open>Map\<close> has; a heap without wrappers
      is so, and \<open>proxy\<close> and the traps keep a heap so\<close>
  "distinct_sources \<sigma> = list_all (\<lambda>md. distinct (map fst (meta_s md))) (metas \<sigma>)"

definition wraps :: "state \<Rightarrow> nat \<Rightarrow> nat \<Rightarrow> bool" where
  \<comment> \<open>proxy \<open>i\<close> is the wrapper of the unfrozen object at \<open>a\<close>, whose marker names the
      record of the two\<close>
  "wraps \<sigma> i a =
     (nth_opt (proxies \<sigma>) i = Some a
      \<and> (case nth_opt (objs \<sigma>) a of
           None \<Rightarrow> False
         | Some ob \<Rightarrow>
             \<not> is_frozen ob
             \<and> (case marker ob of
                  None \<Rightarrow> False
                | Some m \<Rightarrow>
                    (case nth_opt (metas \<sigma>) m of
                       None \<Rightarrow> False
                     | Some md \<Rightarrow> meta_p md = Prox i \<and> meta_t md = Obj a))))"

definition fresh_wrap :: "nat \<Rightarrow> state \<Rightarrow> state" where
  \<comment> \<open>the heap after lines 49-61 of \<open>proxy\<close> on the object at \<open>a\<close>\<close>
  "fresh_wrap a \<sigma> =
     \<sigma>\<lparr>objs := (objs \<sigma>)[a := (objs \<sigma> ! a)\<lparr>marker := Some (length (metas \<sigma>))\<rparr>],
       metas := metas \<sigma> @
         [\<lparr>meta_s = [], meta_v = 0, meta_a = is_array (objs \<sigma> ! a),
           meta_p = Prox (length (proxies \<sigma>)), meta_t = Obj a\<rparr>],
       proxies := proxies \<sigma> @ [a]\<rparr>"

definition ownKeys_spec :: "obj \<Rightarrow> metadata \<Rightarrow> pkey list" where
  \<comment> \<open>the enumeration in the words of the specification: the raw keys in raw order
      without those whose source holds the tombstone, then the keys that exist only
      as a live source (the target has no such key, own or inherited) and are not
      in the raw key list, in the order of the source map\<close>
  "ownKeys_spec ob md =
     [k \<leftarrow> own_keys ob. map_of (meta_s md) k \<noteq> Some UNINITIALIZED]
     @ [k \<leftarrow> map fst (meta_s md). (live md k \<and> \<not> key_in ob k) \<and> k \<notin> set (own_keys ob)]"

section \<open>Auxiliary facts\<close>

subsection \<open>Lists and lookups\<close>

lemma nth_opt_Some [simp]: "nth_opt xs i = Some x \<longleftrightarrow> i < length xs \<and> xs ! i = x"
  by (auto simp: nth_opt_def)

lemma nth_opt_None [simp]: "nth_opt xs i = None \<longleftrightarrow> length xs \<le> i"
  by (auto simp: nth_opt_def)


lemma own_keys_in: "k \<in> set (own_keys ob) \<Longrightarrow> key_in ob k"
proof (cases "k = STATE_SYMBOL")
  case True
  assume "k \<in> set (own_keys ob)"
  then have "marker ob \<noteq> None"
    using True by (cases "marker ob") (auto simp: own_keys_def)
  then show ?thesis
    using True by (auto simp: key_in_def get_descriptor_def)
next
  case False
  assume "k \<in> set (own_keys ob)"
  then have "k \<in> fst ` set (props ob)"
    using False by (auto simp: own_keys_def split: option.splits)
  then have "map_of (props ob) k \<noteq> None"
    by (simp add: map_of_eq_None_iff)
  then show ?thesis
    using False by (simp add: key_in_def get_descriptor_def)
qed

lemma filter_alist_keys:
  "distinct (map fst al) \<Longrightarrow>
   map fst (filter (\<lambda>(k, c). c \<noteq> UNINITIALIZED \<and> P k) al)
   = filter (\<lambda>k. (case map_of al k of Some (Live x) \<Rightarrow> True | _ \<Rightarrow> False) \<and> P k) (map fst al)"
proof (induction al)
  case Nil
  then show ?case by simp
next
  case (Cons e al)
  obtain k c where e: "e = (k, c)" by (cases e)
  have "filter (\<lambda>k'. (case map_of (e # al) k' of Some (Live x) \<Rightarrow> True | _ \<Rightarrow> False) \<and> P k')
          (map fst al)
      = filter (\<lambda>k'. (case map_of al k' of Some (Live x) \<Rightarrow> True | _ \<Rightarrow> False) \<and> P k')
          (map fst al)"
    using Cons.prems e by (intro filter_cong) auto
  then show ?case
    using Cons e by (cases c) auto
qed

subsection \<open>What \<open>proxy\<close> changes\<close>

lemma proxy_cases:
  "proxy x \<sigma> = (x, \<sigma>)
   \<or> (\<exists>p. existing_proxy \<sigma> x = Some p \<and> proxy x \<sigma> = (p, \<sigma>))
   \<or> (\<exists>a. x = Obj a \<and> a < length (objs \<sigma>) \<and> \<not> is_frozen (objs \<sigma> ! a)
          \<and> existing_proxy \<sigma> x = None
          \<and> proxy x \<sigma> = (Prox (length (proxies \<sigma>)), fresh_wrap a \<sigma>))"
  by (auto simp: proxy_def fresh_wrap_def split: val.splits option.splits)



lemma proxy_metas: "\<exists>mds. metas (snd (proxy x \<sigma>)) = metas \<sigma> @ mds"
  using proxy_cases [of x \<sigma>] by (auto simp: fresh_wrap_def)

lemma proxy_metas_length: "m < length (metas \<sigma>) \<Longrightarrow> m < length (metas (snd (proxy x \<sigma>)))"
  using proxy_metas [of x \<sigma>] by auto


subsection \<open>What the operations on sources change\<close>

lemma store_frame:
  "objs (store m k c \<sigma>) = objs \<sigma>" "proxies (store m k c \<sigma>) = proxies \<sigma>"
  "trace (store m k c \<sigma>) = trace \<sigma>" "current_effect (store m k c \<sigma>) = current_effect \<sigma>"
  "version (store m k c \<sigma>) m' = version \<sigma> m'"
  by (auto simp: store_def version_def nth_opt_def nth_list_update split: option.splits)

lemma source_v_store:
  "m < length (metas \<sigma>) \<Longrightarrow>
   source_v (store m k c \<sigma>) m k' = (if k' = k then Some c else source_v \<sigma> m k')"
  by (simp add: store_def source_v_def nth_opt_def AList.update_conv')

lemma source_set_frame:
  "objs (source_set m k c \<sigma>) = objs \<sigma>" "proxies (source_set m k c \<sigma>) = proxies \<sigma>"
  "trace (source_set m k c \<sigma>) = trace \<sigma> @ [Write m (Prop k) c]"
  "current_effect (source_set m k c \<sigma>) = current_effect \<sigma>"
  "version (source_set m k c \<sigma>) m' = version \<sigma> m'"
  using store_frame [of m k c \<sigma>] by (auto simp: source_set_def version_def)



lemma update_version_frame:
  "objs (update_version m \<sigma>) = objs \<sigma>"
  "version (update_version m \<sigma>) m = map_option (\<lambda>v. v + 1) (version \<sigma> m)"
  "\<exists>es. trace (update_version m \<sigma>) = trace \<sigma> @ es \<and> \<not> list_ex setter_call es"
  by (auto simp: update_version_def version_def nth_opt_def setter_call_def split: option.splits)





lemma create_source_v:
  "m < length (metas \<sigma>) \<Longrightarrow>
   source_v (create_source ob m k e \<sigma>) m k
     = Some (if e then Live (fst (proxy (data_value ob k) \<sigma>)) else UNINITIALIZED)"
  using proxy_metas_length [of m \<sigma> "data_value ob k"]
  by (simp add: create_source_def new_source_def source_v_store case_prod_beta)

lemma target_metadata_valid:
  "target_metadata \<sigma> target = Some (ob, m, md) \<Longrightarrow> m < length (metas \<sigma>)"
  by (auto simp: target_metadata_def nth_opt_def split: option.splits if_splits)


lemma target_metadata_source:
  "target_metadata \<sigma> target = Some (ob, m, md) \<Longrightarrow> source_v \<sigma> m k = map_of (meta_s md) k"
  by (auto simp: target_metadata_def source_v_def nth_opt_def split: option.splits if_splits)

subsection \<open>The events of the \<open>set\<close> trap\<close>

lemma quiet_simps [simp]:
  "quiet []" "quiet (es @ es') = (quiet es \<and> quiet es')"
  "quiet [Write m (Prop k) c]" "\<not> quiet [SetterCall a k x]"
  by (auto simp: quiet_def version_write_def setter_call_def)





lemma clear_index_frame:
  "objs (clear_index m \<sigma> i) = objs \<sigma>"
  "version (clear_index m \<sigma> i) m' = version \<sigma> m'"
  "\<exists>es. trace (clear_index m \<sigma> i) = trace \<sigma> @ es \<and> quiet es"
  by (auto simp: clear_index_def source_set_frame)

lemma clear_loop_frame:
  "objs (foldl (clear_index m) \<sigma> js) = objs \<sigma>
   \<and> version (foldl (clear_index m) \<sigma> js) m' = version \<sigma> m'
   \<and> (\<exists>es. trace (foldl (clear_index m) \<sigma> js) = trace \<sigma> @ es \<and> quiet es)"
proof (induction js arbitrary: \<sigma>)
  case Nil
  then show ?case by simp
next
  case (Cons j js)
  obtain es where es: "trace (clear_index m \<sigma> j) = trace \<sigma> @ es" "quiet es"
    using clear_index_frame(3) by blast
  obtain es' where es':
    "trace (foldl (clear_index m) (clear_index m \<sigma> j) js) = trace (clear_index m \<sigma> j) @ es'"
    "quiet es'"
    using Cons.IH [of "clear_index m \<sigma> j"] by blast
  have "trace (foldl (clear_index m) \<sigma> (j # js)) = trace \<sigma> @ (es @ es')" "quiet (es @ es')"
    using es es' by simp_all
  then show ?case
    using Cons.IH [of "clear_index m \<sigma> j"]
    by (auto simp: clear_index_frame simp del: quiet_simps)
qed

lemma clear_from_frame:
  "objs (clear_from m md ob k x \<sigma>) = objs \<sigma>"
  "version (clear_from m md ob k x \<sigma>) m' = version \<sigma> m'"
  "\<exists>es. trace (clear_from m md ob k x \<sigma>) = trace \<sigma> @ es \<and> quiet es"
  using clear_loop_frame [of m \<sigma> _ m']
  by (auto simp: clear_from_def split: val.splits)

lemma sync_length_frame:
  assumes "sync_length m md k \<sigma> = Some \<sigma>'"
  shows "objs \<sigma>' = objs \<sigma>" "version \<sigma>' m' = version \<sigma> m'"
    "\<exists>es. trace \<sigma>' = trace \<sigma> @ es \<and> quiet es"
  using assms
  by (auto simp: sync_length_def source_set_frame
      split: pkey.splits option.splits cell.splits if_splits)


lemma call_setter_frame:
  "objs (call_setter a ob k x \<sigma>) = objs \<sigma>"
  "version (call_setter a ob k x \<sigma>) m' = version \<sigma> m'"
  "trace (call_setter a ob k x \<sigma>) =
     trace \<sigma> @ (if has_setter (get_descriptor ob k) then [SetterCall a k x] else [])"
  by (auto simp: call_setter_def version_def)


subsection \<open>The structural version under each trap\<close>







subsection \<open>Wrappers and their targets\<close>


lemma wraps_existing: "wraps \<sigma> i a \<Longrightarrow> existing_proxy \<sigma> (Obj a) = Some (Prox i)"
  by (auto simp: wraps_def existing_proxy_def state_symbol_of_def split: option.splits)

lemma linked_fresh_wrap: "linked \<sigma> md \<Longrightarrow> linked (fresh_wrap a \<sigma>) md"
  by (auto simp: linked_def fresh_wrap_def nth_append nth_opt_def
      split: val.splits option.splits if_splits)

lemma well_linked_fresh_wrap: "well_linked \<sigma> \<Longrightarrow> well_linked (fresh_wrap a \<sigma>)"
proof -
  assume "well_linked \<sigma>"
  then have "list_all (linked (fresh_wrap a \<sigma>)) (metas \<sigma>)"
    by (auto simp: well_linked_def list_all_iff linked_fresh_wrap)
  moreover have "linked (fresh_wrap a \<sigma>) (last (metas (fresh_wrap a \<sigma>)))"
    by (simp add: linked_def fresh_wrap_def nth_opt_def)
  ultimately show ?thesis
    by (simp add: well_linked_def fresh_wrap_def)
qed

lemma proxy_well_linked: "well_linked \<sigma> \<Longrightarrow> well_linked (snd (proxy x \<sigma>))"
  using proxy_cases [of x \<sigma>] by (auto simp: well_linked_fresh_wrap)





subsection \<open>The heaps that arise are well linked\<close>

lemma linked_cong:
  "proxies \<sigma>' = proxies \<sigma> \<Longrightarrow> meta_p md' = meta_p md \<Longrightarrow> meta_t md' = meta_t md \<Longrightarrow>
   linked \<sigma>' md' = linked \<sigma> md"
  by (auto simp: linked_def split: val.splits option.splits)

lemma well_linked_update:
  assumes "well_linked \<sigma>" "proxies \<sigma>' = proxies \<sigma>"
    and "metas \<sigma>' = (metas \<sigma>)[m := md']"
    and "m < length (metas \<sigma>) \<Longrightarrow> meta_p md' = meta_p (metas \<sigma> ! m) \<and> meta_t md' = meta_t (metas \<sigma> ! m)"
  shows "well_linked \<sigma>'"
proof -
  have "linked \<sigma>' (metas \<sigma>' ! n)" if n: "n < length (metas \<sigma>)" for n
  proof -
    have "linked \<sigma> (metas \<sigma> ! n)"
      using assms(1) n by (simp add: well_linked_def list_all_length)
    moreover have "meta_p (metas \<sigma>' ! n) = meta_p (metas \<sigma> ! n)"
        "meta_t (metas \<sigma>' ! n) = meta_t (metas \<sigma> ! n)"
      using assms(3,4) n by (cases "n = m"; simp)+
    ultimately show ?thesis
      using linked_cong [OF assms(2)] by blast
  qed
  then show ?thesis
    using assms(3) by (simp add: well_linked_def list_all_length)
qed

lemma well_linked_same:
  "well_linked \<sigma> \<Longrightarrow> proxies \<sigma>' = proxies \<sigma> \<Longrightarrow> metas \<sigma>' = metas \<sigma> \<Longrightarrow> well_linked \<sigma>'"
  using linked_cong [of \<sigma>' \<sigma>] by (simp add: well_linked_def list_all_iff)

lemma well_linked_store: "well_linked \<sigma> \<Longrightarrow> well_linked (store m k c \<sigma>)"
  by (cases "m < length (metas \<sigma>)")
    (auto simp: store_def nth_opt_def intro: well_linked_update [of \<sigma> _ m])


lemma well_linked_source_set: "well_linked \<sigma> \<Longrightarrow> well_linked (source_set m k c \<sigma>)"
  using well_linked_store [of \<sigma> m k c]
  by (auto simp: source_set_def intro: well_linked_same [of "store m k c \<sigma>"])

lemma well_linked_source_get: "well_linked \<sigma> \<Longrightarrow> well_linked (source_get m r \<sigma>)"
  by (auto simp: source_get_def intro: well_linked_same [of \<sigma>])

lemma well_linked_update_version: "well_linked \<sigma> \<Longrightarrow> well_linked (update_version m \<sigma>)"
  by (cases "m < length (metas \<sigma>)")
    (auto simp: update_version_def nth_opt_def intro: well_linked_update [of \<sigma> _ m])

lemma well_linked_set_proxied: "well_linked \<sigma> \<Longrightarrow> well_linked (set_proxied m k x \<sigma>)"
  using proxy_well_linked [of \<sigma> x]
  by (simp add: set_proxied_def case_prod_beta well_linked_source_set)

lemma well_linked_create_source: "well_linked \<sigma> \<Longrightarrow> well_linked (create_source ob m k e \<sigma>)"
  using proxy_well_linked [of \<sigma> "data_value ob k"]
  by (simp add: create_source_def new_source_def case_prod_beta well_linked_store)

lemma well_linked_clear_loop:
  "well_linked \<sigma> \<Longrightarrow> well_linked (foldl (clear_index m) \<sigma> js)"
  by (induction js arbitrary: \<sigma>) (simp_all add: clear_index_def well_linked_source_set)

lemma well_linked_clear_from: "well_linked \<sigma> \<Longrightarrow> well_linked (clear_from m md ob k x \<sigma>)"
  by (auto simp: clear_from_def well_linked_clear_loop split: val.splits)

lemma well_linked_write_source: "well_linked \<sigma> \<Longrightarrow> well_linked (write_source ob m md k x \<sigma>)"
  by (auto simp: write_source_def well_linked_set_proxied split: option.splits)

lemma well_linked_call_setter: "well_linked \<sigma> \<Longrightarrow> well_linked (call_setter a ob k x \<sigma>)"
  by (auto simp: call_setter_def intro: well_linked_same [of \<sigma>])

lemma well_linked_sync_length:
  "well_linked \<sigma> \<Longrightarrow> sync_length m md k \<sigma> = Some \<sigma>' \<Longrightarrow> well_linked \<sigma>'"
  by (auto simp: sync_length_def well_linked_source_set
      split: pkey.splits option.splits cell.splits if_splits)

lemma well_linked_Reflect_get: "well_linked \<sigma> \<Longrightarrow> well_linked (snd (Reflect_get a ob k \<sigma>))"
  by (auto simp: Reflect_get_def split: option.splits slot.splits intro: well_linked_same [of \<sigma>])

lemma well_linked_invariant:
  "well_linked (heap_of obs)"
  "well_linked \<sigma> \<Longrightarrow> well_linked (snd (proxy x \<sigma>))"
  "well_linked \<sigma> \<Longrightarrow> well_linked (snd (handler_get target k \<sigma>))"
  "well_linked \<sigma> \<Longrightarrow> well_linked (snd (handler_has target k \<sigma>))"
  "well_linked \<sigma> \<Longrightarrow> well_linked (snd (handler_set target k x \<sigma>))"
  "well_linked \<sigma> \<Longrightarrow> well_linked (snd (handler_deleteProperty target k \<sigma>))"
  "well_linked \<sigma> \<Longrightarrow> well_linked (snd (handler_defineProperty target k d \<sigma>))"
  "well_linked \<sigma> \<Longrightarrow> well_linked (snd (handler_ownKeys target \<sigma>))"
proof -
  show "well_linked (heap_of obs)"
    by (simp add: well_linked_def heap_of_def)
  show "well_linked \<sigma> \<Longrightarrow> well_linked (snd (proxy x \<sigma>))"
    by (rule proxy_well_linked)
  show "well_linked \<sigma> \<Longrightarrow> well_linked (snd (handler_get target k \<sigma>))"
    by (auto simp: handler_get_def Let_def case_prod_beta well_linked_create_source
        well_linked_source_get well_linked_Reflect_get split: option.splits)
  show "well_linked \<sigma> \<Longrightarrow> well_linked (snd (handler_has target k \<sigma>))"
    by (auto simp: handler_has_def Let_def well_linked_create_source well_linked_source_get
        split: option.splits)
  show "well_linked \<sigma> \<Longrightarrow> well_linked (snd (handler_set target k x \<sigma>))"
    by (auto simp: handler_set_def Let_def well_linked_write_source well_linked_clear_from
        well_linked_call_setter well_linked_update_version
        split: option.splits intro!: well_linked_update_version
        intro: well_linked_sync_length [rotated])
  show "well_linked \<sigma> \<Longrightarrow> well_linked (snd (handler_deleteProperty target k \<sigma>))"
    by (auto simp: handler_deleteProperty_def Let_def well_linked_source_set
        well_linked_update_version split: option.splits)
  show "well_linked \<sigma> \<Longrightarrow> well_linked (snd (handler_defineProperty target k d \<sigma>))"
    by (auto simp: handler_defineProperty_def e_state_descriptors_fixed_def new_source_def
        well_linked_store well_linked_set_proxied split: option.splits)
  show "well_linked \<sigma> \<Longrightarrow> well_linked (snd (handler_ownKeys target \<sigma>))"
    by (auto simp: handler_ownKeys_def well_linked_source_get split: option.splits)
qed

subsection \<open>The keys of a source map are distinct\<close>

lemma distinct_sources_metas:
  "distinct_sources \<sigma> \<Longrightarrow> metas \<sigma>' = metas \<sigma> \<Longrightarrow> distinct_sources \<sigma>'"
  by (simp add: distinct_sources_def)

lemma distinct_sources_store: "distinct_sources \<sigma> \<Longrightarrow> distinct_sources (store m k c \<sigma>)"
  by (cases "m < length (metas \<sigma>)")
    (auto simp: store_def nth_opt_def distinct_sources_def list_all_length nth_list_update
      AList.distinct_update)

lemma distinct_sources_source_set:
  "distinct_sources \<sigma> \<Longrightarrow> distinct_sources (source_set m k c \<sigma>)"
  using distinct_sources_store [of \<sigma> m k c]
  by (auto simp: source_set_def intro: distinct_sources_metas [of "store m k c \<sigma>"])

lemma distinct_sources_source_get:
  "distinct_sources \<sigma> \<Longrightarrow> distinct_sources (source_get m r \<sigma>)"
  by (auto simp: source_get_def intro: distinct_sources_metas [of \<sigma>])

lemma distinct_sources_update_version:
  "distinct_sources \<sigma> \<Longrightarrow> distinct_sources (update_version m \<sigma>)"
  by (cases "m < length (metas \<sigma>)")
    (auto simp: update_version_def nth_opt_def distinct_sources_def list_all_length
      nth_list_update)

lemma distinct_sources_proxy: "distinct_sources \<sigma> \<Longrightarrow> distinct_sources (snd (proxy x \<sigma>))"
  using proxy_cases [of x \<sigma>] by (auto simp: fresh_wrap_def distinct_sources_def)

lemma distinct_sources_set_proxied:
  "distinct_sources \<sigma> \<Longrightarrow> distinct_sources (set_proxied m k x \<sigma>)"
  using distinct_sources_proxy [of \<sigma> x]
  by (simp add: set_proxied_def case_prod_beta distinct_sources_source_set)

lemma distinct_sources_create_source:
  "distinct_sources \<sigma> \<Longrightarrow> distinct_sources (create_source ob m k e \<sigma>)"
  using distinct_sources_proxy [of \<sigma> "data_value ob k"]
  by (simp add: create_source_def new_source_def case_prod_beta distinct_sources_store)

lemma distinct_sources_clear_loop:
  "distinct_sources \<sigma> \<Longrightarrow> distinct_sources (foldl (clear_index m) \<sigma> js)"
  by (induction js arbitrary: \<sigma>) (simp_all add: clear_index_def distinct_sources_source_set)

lemma distinct_sources_clear_from:
  "distinct_sources \<sigma> \<Longrightarrow> distinct_sources (clear_from m md ob k x \<sigma>)"
  by (auto simp: clear_from_def distinct_sources_clear_loop split: val.splits)

lemma distinct_sources_write_source:
  "distinct_sources \<sigma> \<Longrightarrow> distinct_sources (write_source ob m md k x \<sigma>)"
  by (auto simp: write_source_def distinct_sources_set_proxied split: option.splits)

lemma distinct_sources_call_setter:
  "distinct_sources \<sigma> \<Longrightarrow> distinct_sources (call_setter a ob k x \<sigma>)"
  by (auto simp: call_setter_def intro: distinct_sources_metas [of \<sigma>])

lemma distinct_sources_sync_length:
  "distinct_sources \<sigma> \<Longrightarrow> sync_length m md k \<sigma> = Some \<sigma>' \<Longrightarrow> distinct_sources \<sigma>'"
  by (auto simp: sync_length_def distinct_sources_source_set
      split: pkey.splits option.splits cell.splits if_splits)

lemma distinct_sources_Reflect_get:
  "distinct_sources \<sigma> \<Longrightarrow> distinct_sources (snd (Reflect_get a ob k \<sigma>))"
  by (auto simp: Reflect_get_def split: option.splits slot.splits
      intro: distinct_sources_metas [of \<sigma>])

lemma distinct_sources_invariant:
  "distinct_sources (heap_of obs)"
  "distinct_sources \<sigma> \<Longrightarrow> distinct_sources (snd (proxy x \<sigma>))"
  "distinct_sources \<sigma> \<Longrightarrow> distinct_sources (snd (handler_get target k \<sigma>))"
  "distinct_sources \<sigma> \<Longrightarrow> distinct_sources (snd (handler_has target k \<sigma>))"
  "distinct_sources \<sigma> \<Longrightarrow> distinct_sources (snd (handler_set target k x \<sigma>))"
  "distinct_sources \<sigma> \<Longrightarrow> distinct_sources (snd (handler_deleteProperty target k \<sigma>))"
  "distinct_sources \<sigma> \<Longrightarrow> distinct_sources (snd (handler_defineProperty target k d \<sigma>))"
  "distinct_sources \<sigma> \<Longrightarrow> distinct_sources (snd (handler_ownKeys target \<sigma>))"
proof -
  show "distinct_sources (heap_of obs)"
    by (simp add: distinct_sources_def heap_of_def)
  show "distinct_sources \<sigma> \<Longrightarrow> distinct_sources (snd (proxy x \<sigma>))"
    by (rule distinct_sources_proxy)
  show "distinct_sources \<sigma> \<Longrightarrow> distinct_sources (snd (handler_get target k \<sigma>))"
    by (auto simp: handler_get_def Let_def case_prod_beta distinct_sources_create_source
        distinct_sources_source_get distinct_sources_Reflect_get split: option.splits)
  show "distinct_sources \<sigma> \<Longrightarrow> distinct_sources (snd (handler_has target k \<sigma>))"
    by (auto simp: handler_has_def Let_def distinct_sources_create_source
        distinct_sources_source_get split: option.splits)
  show "distinct_sources \<sigma> \<Longrightarrow> distinct_sources (snd (handler_set target k x \<sigma>))"
    by (auto simp: handler_set_def Let_def distinct_sources_write_source
        distinct_sources_clear_from distinct_sources_call_setter
        split: option.splits intro!: distinct_sources_update_version
        intro: distinct_sources_sync_length [rotated])
  show "distinct_sources \<sigma> \<Longrightarrow> distinct_sources (snd (handler_deleteProperty target k \<sigma>))"
    by (auto simp: handler_deleteProperty_def Let_def distinct_sources_source_set
        distinct_sources_update_version split: option.splits)
  show "distinct_sources \<sigma> \<Longrightarrow> distinct_sources (snd (handler_defineProperty target k d \<sigma>))"
    by (auto simp: handler_defineProperty_def e_state_descriptors_fixed_def new_source_def
        distinct_sources_store distinct_sources_set_proxied split: option.splits)
  show "distinct_sources \<sigma> \<Longrightarrow> distinct_sources (snd (handler_ownKeys target \<sigma>))"
    by (auto simp: handler_ownKeys_def distinct_sources_source_get split: option.splits)
qed

lemma distinct_sources_target:
  "distinct_sources \<sigma> \<Longrightarrow> target_metadata \<sigma> target = Some (ob, m, md) \<Longrightarrow>
   distinct (map fst (meta_s md))"
  by (auto simp: distinct_sources_def list_all_length target_metadata_def nth_opt_def
      split: option.splits if_splits)

subsection \<open>Array length where the sources exist\<close>

lemma source_v_proxy:
  "m < length (metas \<sigma>) \<Longrightarrow> source_v (snd (proxy x \<sigma>)) m k = source_v \<sigma> m k"
  using proxy_metas [of x \<sigma>] by (auto simp: source_v_def nth_opt_def nth_append)

lemma source_v_source_set:
  "m < length (metas \<sigma>) \<Longrightarrow>
   source_v (source_set m k c \<sigma>) m k' = (if k' = k then Some c else source_v \<sigma> m k')"
  using source_v_store [of m \<sigma> k c k'] by (simp add: source_set_def source_v_def)

lemma source_v_set_proxied:
  "m < length (metas \<sigma>) \<Longrightarrow>
   source_v (set_proxied m k x \<sigma>) m k'
     = (if k' = k then Some (Live (fst (proxy x \<sigma>))) else source_v \<sigma> m k')"
  using proxy_metas_length [of m \<sigma> x]
  by (simp add: set_proxied_def case_prod_beta source_v_source_set source_v_proxy)

lemma source_v_update_version: "source_v (update_version m \<sigma>) m' k = source_v \<sigma> m' k"
  by (auto simp: update_version_def source_v_def nth_opt_def nth_list_update split: option.splits)

lemma source_v_call_setter: "source_v (call_setter a ob k x \<sigma>) m k' = source_v \<sigma> m k'"
  by (simp add: call_setter_def source_v_def)

lemma metas_length_set_proxied:
  "m < length (metas \<sigma>) \<Longrightarrow> m < length (metas (set_proxied m' k x \<sigma>))"
  using proxy_metas_length [of m \<sigma> x]
  by (auto simp: set_proxied_def case_prod_beta source_set_def store_def nth_opt_def
      split: option.splits)

lemma length_synced_when_tracked:
  assumes tm: "target_metadata \<sigma> target = Some (ob, m, md)" and arr: "meta_a md"
    and n: "Number_integer str = Some n" and absent: "\<not> present ob md (Str str)"
    and ls: "map_of (meta_s md) (Str ''length'') = Some (Live (Num l))"
  shows "\<exists>\<sigma>1. handler_set target (Str str) x \<sigma> = (Returned True, \<sigma>1)
    \<and> source_v \<sigma>1 m (Str ''length'') = Some (Live (Num (if l \<le> n then n + 1 else l)))"
proof -
  have "Number_integer ''length'' = None"
    by code_simp
  then have ne: "str \<noteq> ''length''"
    using n by auto
  have valid: "m < length (metas \<sigma>)"
    using target_metadata_valid [OF tm] .
  define \<sigma>1 where "\<sigma>1 = set_proxied m (Str str) x \<sigma>"
  have w: "write_source ob m md (Str str) x \<sigma> = \<sigma>1"
    using absent by (auto simp: write_source_def present_def \<sigma>1_def split: option.splits)
  have c: "clear_from m md ob (Str str) x \<sigma>1 = \<sigma>1"
    using ne by (simp add: clear_from_def)
  define \<sigma>3 where "\<sigma>3 = call_setter target ob (Str str) x \<sigma>1"
  have valid3: "m < length (metas \<sigma>3)"
    using metas_length_set_proxied [OF valid] by (simp add: \<sigma>3_def \<sigma>1_def call_setter_def)
  have l3: "source_v \<sigma>3 m (Str ''length'') = Some (Live (Num l))"
    using ne ls target_metadata_source [OF tm, of "Str ''length''"]
    by (simp add: \<sigma>3_def \<sigma>1_def source_v_call_setter source_v_set_proxied [OF valid])
  define \<sigma>4 where
    "\<sigma>4 = (if l \<le> n then source_set m (Str ''length'') (Live (Num (n + 1))) \<sigma>3 else \<sigma>3)"
  have s: "sync_length m md (Str str) \<sigma>3 = Some \<sigma>4"
    using arr n l3 by (simp add: sync_length_def to_number_def \<sigma>4_def)
  have l4: "source_v \<sigma>4 m (Str ''length'') = Some (Live (Num (if l \<le> n then n + 1 else l)))"
    using l3 by (simp add: \<sigma>4_def source_v_source_set [OF valid3])
  have "handler_set target (Str str) x \<sigma> = (Returned True, update_version m \<sigma>4)"
    using tm absent w c s by (simp add: handler_set_def Let_def present_def \<sigma>3_def)
  then show ?thesis
    using l4 by (simp add: source_v_update_version)
qed

lemma digit_chars_nth: "n < 10 \<Longrightarrow> digit_chars ! n \<in> set digit_chars"
proof -
  assume "n < 10"
  then have "n < length digit_chars"
    by (simp add: digit_chars_def)
  then show ?thesis
    by (rule nth_mem)
qed

lemma string_of_nat_digits: "set (string_of_nat n) \<subseteq> set digit_chars \<and> string_of_nat n \<noteq> []"
proof (induction n rule: string_of_nat.induct)
  case (1 n)
  show ?case
  proof (cases "n < 10")
    case True
    then show ?thesis
      using digit_chars_nth [of n] by (subst string_of_nat.simps) simp
  next
    case False
    have "n mod 10 < 10" by simp
    then have "digit_chars ! (n mod 10) \<in> set digit_chars"
      by (rule digit_chars_nth)
    then show ?thesis
      using False 1 by (subst (1 2) string_of_nat.simps) simp
  qed
qed

lemma string_of_int_not_length: "string_of_int i \<noteq> ''length''"
proof
  assume a: "string_of_int i = ''length''"
  have l: "CHR ''l'' \<notin> set digit_chars" "CHR ''e'' \<notin> set digit_chars"
    by (simp_all add: digit_chars_def)
  show False
  proof (cases "i < 0")
    case True
    then show ?thesis using a by (simp add: string_of_int_def)
  next
    case False
    then have "string_of_nat (nat i) = ''length''"
      using a by (simp add: string_of_int_def)
    then have "CHR ''l'' \<in> set (string_of_nat (nat i))"
      by simp
    then show ?thesis
      using string_of_nat_digits [of "nat i"] l by blast
  qed
qed

lemma metas_length_clear_index:
  "m' < length (metas \<sigma>) \<Longrightarrow> m' < length (metas (clear_index m \<sigma> i))"
  by (auto simp: clear_index_def source_set_def store_def nth_opt_def split: option.splits)

lemma source_v_clear_index:
  "m < length (metas \<sigma>) \<Longrightarrow>
   source_v (clear_index m \<sigma> i) m k
     = (if k = Str (string_of_int i) \<and> source_v \<sigma> m k \<noteq> None then Some UNINITIALIZED
        else source_v \<sigma> m k)"
  by (auto simp: clear_index_def source_v_source_set)

lemma source_v_clear_loop:
  "m < length (metas \<sigma>) \<Longrightarrow>
   source_v (foldl (clear_index m) \<sigma> js) m k
     = (if k \<in> (\<lambda>i. Str (string_of_int i)) ` set js \<and> source_v \<sigma> m k \<noteq> None
        then Some UNINITIALIZED else source_v \<sigma> m k)"
proof (induction js arbitrary: \<sigma>)
  case Nil
  then show ?case by simp
next
  case (Cons j js)
  have v: "m < length (metas (clear_index m \<sigma> j))"
    using metas_length_clear_index [OF Cons.prems] .
  show ?case
    using Cons.IH [OF v] Cons.prems
    by (auto simp: source_v_clear_index)
qed

lemma length_write_clears_tracked:
  assumes tm: "target_metadata \<sigma> target = Some (ob, m, md)" and arr: "meta_a md"
    and len: "data_value ob (Str ''length'') = Num n" and range: "v \<le> i" "i < n"
    and src: "map_of (meta_s md) (Str (string_of_int i)) \<noteq> None"
  shows "source_v (snd (handler_set target (Str ''length'') (Num v) \<sigma>)) m
           (Str (string_of_int i)) = Some UNINITIALIZED"
proof -
  have valid: "m < length (metas \<sigma>)"
    using target_metadata_valid [OF tm] .
  define \<sigma>1 where "\<sigma>1 = write_source ob m md (Str ''length'') (Num v) \<sigma>"
  have valid1: "m < length (metas \<sigma>1)"
    using metas_length_set_proxied [OF valid]
    by (auto simp: \<sigma>1_def write_source_def valid split: option.splits)
  have s1: "source_v \<sigma>1 m (Str (string_of_int i)) \<noteq> None"
    using src target_metadata_source [OF tm, of "Str (string_of_int i)"]
      string_of_int_not_length [of i]
    by (auto simp: \<sigma>1_def write_source_def source_v_set_proxied [OF valid] split: option.splits)
  define \<sigma>2 where "\<sigma>2 = clear_from m md ob (Str ''length'') (Num v) \<sigma>1"
  have "i \<in> set [v..n - 1]"
    using range by simp
  then have s2: "source_v \<sigma>2 m (Str (string_of_int i)) = Some UNINITIALIZED"
    using arr len s1 by (simp add: \<sigma>2_def clear_from_def source_v_clear_loop [OF valid1])
  define \<sigma>3 where "\<sigma>3 = call_setter target ob (Str ''length'') (Num v) \<sigma>2"
  have s3: "source_v \<sigma>3 m (Str (string_of_int i)) = Some UNINITIALIZED"
    using s2 by (simp add: \<sigma>3_def source_v_call_setter)
  have "Number_integer ''length'' = None"
    by code_simp
  then have "sync_length m md (Str ''length'') \<sigma>3 = Some \<sigma>3"
    by (simp add: sync_length_def split: option.splits)
  then have "snd (handler_set target (Str ''length'') (Num v) \<sigma>) = \<sigma>3
      \<or> snd (handler_set target (Str ''length'') (Num v) \<sigma>) = update_version m \<sigma>3"
    using tm by (simp add: handler_set_def Let_def \<sigma>1_def \<sigma>2_def \<sigma>3_def)
  then show ?thesis
    using s3 by (auto simp: source_v_update_version)
qed

subsection \<open>A key through write, read, delete and \<open>has\<close>\<close>

lemma target_metadata_iff:
  "target_metadata \<sigma> target = Some (ob, m, md) \<longleftrightarrow>
     target < length (objs \<sigma>) \<and> objs \<sigma> ! target = ob \<and> marker ob = Some m
     \<and> m < length (metas \<sigma>) \<and> metas \<sigma> ! m = md"
  by (auto simp: target_metadata_def nth_opt_def split: option.splits)

lemma source_v_nth: "m < length (metas \<sigma>) \<Longrightarrow> source_v \<sigma> m k = map_of (meta_s (metas \<sigma> ! m)) k"
  by (simp add: source_v_def nth_opt_def)

lemma source_v_valid: "source_v \<sigma> m k = Some c \<Longrightarrow> m < length (metas \<sigma>)"
  by (auto simp: source_v_def nth_opt_def split: option.splits if_splits)

lemma proxy_keeps_target:
  assumes "wraps \<sigma> i a"
  shows "objs (snd (proxy x \<sigma>)) ! a = objs \<sigma> ! a"
    "length (objs (snd (proxy x \<sigma>))) = length (objs \<sigma>)"
proof -
  have "b \<noteq> a" if "existing_proxy \<sigma> (Obj b) = None" for b
    using that wraps_existing [OF assms] by auto
  then show "objs (snd (proxy x \<sigma>)) ! a = objs \<sigma> ! a"
    using proxy_cases [of x \<sigma>] by (auto simp: fresh_wrap_def)
  show "length (objs (snd (proxy x \<sigma>))) = length (objs \<sigma>)"
    using proxy_cases [of x \<sigma>] by (auto simp: fresh_wrap_def)
qed

lemma source_v_clear_from:
  assumes "m < length (metas \<sigma>)" "source_v \<sigma> m k = Some (Live w)"
  shows "source_v (clear_from m md ob k x \<sigma>) m k = Some (Live w)"
proof (cases "meta_a md \<and> k = Str ''length''")
  case False
  then show ?thesis
    using assms(2) by (auto simp: clear_from_def)
next
  case True
  have "Str (string_of_int i) \<noteq> Str ''length''" for i
    using string_of_int_not_length [of i] by simp
  then have "k \<notin> (\<lambda>i. Str (string_of_int i)) ` set js" for js
    using True by blast
  then have "source_v (foldl (clear_index m) \<sigma> js) m k = Some (Live w)" for js
    using assms by (simp add: source_v_clear_loop)
  then show ?thesis
    using assms(2) by (auto simp: clear_from_def split: val.splits)
qed

lemma metas_length_clear_loop:
  "m' < length (metas \<sigma>) \<Longrightarrow> m' < length (metas (foldl (clear_index m) \<sigma> js))"
  by (induction js arbitrary: \<sigma>) (simp_all add: metas_length_clear_index)

lemma source_v_sync_length:
  assumes "sync_length m md k \<sigma> = Some \<sigma>'" "source_v \<sigma> m k = Some (Live w)"
  shows "source_v \<sigma>' m k = Some (Live w)"
proof -
  have v: "m < length (metas \<sigma>)"
    using source_v_valid [OF assms(2)] .
  have "Number_integer ''length'' = None"
    by code_simp
  then show ?thesis
    using assms
    by (auto simp: sync_length_def source_v_source_set [OF v]
        split: pkey.splits option.splits cell.splits if_splits)
qed

lemma handler_set_tracks:
  assumes w: "wraps \<sigma> i target" and tm: "target_metadata \<sigma> target = Some (ob, m, md)"
    and ok: "map_of (meta_s md) k \<noteq> None \<or> \<not> key_in ob k \<or> writable (get_descriptor ob k)"
  shows "\<exists>md1. target_metadata (snd (handler_set target k x \<sigma>)) target = Some (ob, m, md1)
      \<and> map_of (meta_s md1) k = Some (Live (fst (proxy x \<sigma>)))"
proof -
  have valid: "m < length (metas \<sigma>)" and ob: "target < length (objs \<sigma>)" "objs \<sigma> ! target = ob"
      "marker ob = Some m"
    using tm by (simp_all add: target_metadata_iff)
  define \<sigma>1 where "\<sigma>1 = set_proxied m k x \<sigma>"
  have w1: "write_source ob m md k x \<sigma> = \<sigma>1"
    using ok by (auto simp: write_source_def \<sigma>1_def split: option.splits)
  have o1: "objs \<sigma>1 ! target = ob" "target < length (objs \<sigma>1)"
    using proxy_keeps_target [OF w, of x] ob
    by (simp_all add: \<sigma>1_def set_proxied_def case_prod_beta source_set_frame)
  have s1: "source_v \<sigma>1 m k = Some (Live (fst (proxy x \<sigma>)))"
    by (simp add: \<sigma>1_def source_v_set_proxied [OF valid])
  define \<sigma>3 where "\<sigma>3 = call_setter target ob k x (clear_from m md ob k x \<sigma>1)"
  have o3: "objs \<sigma>3 = objs \<sigma>1"
    by (simp add: \<sigma>3_def call_setter_frame clear_from_frame)
  have s3: "source_v \<sigma>3 m k = Some (Live (fst (proxy x \<sigma>)))"
    using source_v_clear_from [OF source_v_valid [OF s1] s1]
    by (simp add: \<sigma>3_def source_v_call_setter)
  have "\<exists>\<sigma>4. snd (handler_set target k x \<sigma>) = \<sigma>4 \<and> objs \<sigma>4 = objs \<sigma>3
      \<and> source_v \<sigma>4 m k = Some (Live (fst (proxy x \<sigma>)))"
  proof (cases "present ob md k")
    case True
    then have "handler_set target k x \<sigma> = (Returned True, \<sigma>3)"
      using tm w1 by (simp add: handler_set_def Let_def \<sigma>3_def present_def)
    then show ?thesis using s3 by simp
  next
    case False
    show ?thesis
    proof (cases "sync_length m md k \<sigma>3")
      case None
      then have "handler_set target k x \<sigma> = (Threw TypeError, \<sigma>3)"
        using tm w1 False by (simp add: handler_set_def Let_def \<sigma>3_def present_def)
      then show ?thesis using s3 by simp
    next
      case (Some \<sigma>4)
      then have "handler_set target k x \<sigma> = (Returned True, update_version m \<sigma>4)"
        using tm w1 False by (simp add: handler_set_def Let_def \<sigma>3_def present_def)
      then show ?thesis
        using source_v_sync_length [OF Some s3] sync_length_frame(1)[OF Some]
        by (simp add: source_v_update_version update_version_frame)
    qed
  qed
  then obtain \<sigma>4 where r: "snd (handler_set target k x \<sigma>) = \<sigma>4" "objs \<sigma>4 = objs \<sigma>3"
      "source_v \<sigma>4 m k = Some (Live (fst (proxy x \<sigma>)))"
    by blast
  have v4: "m < length (metas \<sigma>4)"
    using source_v_valid [OF r(3)] .
  have "target_metadata \<sigma>4 target = Some (ob, m, metas \<sigma>4 ! m)"
    using o1 o3 r(2) ob(3) v4 by (simp add: target_metadata_iff)
  moreover have "map_of (meta_s (metas \<sigma>4 ! m)) k = Some (Live (fst (proxy x \<sigma>)))"
    using r(3) source_v_nth [OF v4, of k] by simp
  ultimately show ?thesis
    using r(1) by simp
qed

lemma handler_get_tracked:
  assumes "target_metadata \<sigma> target = Some (ob, m, md)" "map_of (meta_s md) k = Some c"
    "k \<noteq> STATE_SYMBOL"
  shows "handler_get target k \<sigma>
      = (Returned (case c of UNINITIALIZED \<Rightarrow> Undefined | Live x \<Rightarrow> x),
         \<sigma>\<lparr>trace := trace \<sigma> @ [Read m (Prop k)]\<rparr>)"
  using assms target_metadata_source [OF assms(1), of k]
  by (auto simp: handler_get_def Let_def source_get_def)

lemma handler_has_tracked:
  assumes "target_metadata \<sigma> target = Some (ob, m, md)" "map_of (meta_s md) k = Some c"
    "k \<noteq> STATE_SYMBOL"
  shows "handler_has target k \<sigma>
      = (Returned (c \<noteq> UNINITIALIZED), \<sigma>\<lparr>trace := trace \<sigma> @ [Read m (Prop k)]\<rparr>)"
  using assms target_metadata_source [OF assms(1), of k]
  by (auto simp: handler_has_def Let_def source_get_def)

lemma target_metadata_trace:
  "target_metadata (\<sigma>\<lparr>trace := es\<rparr>) target = target_metadata \<sigma> target"
  by (auto simp: target_metadata_def split: option.splits)

lemma handler_deleteProperty_tracked:
  assumes tm: "target_metadata \<sigma> target = Some (ob, m, md)"
    and c: "map_of (meta_s md) k = Some c"
  shows "fst (handler_deleteProperty target k \<sigma>) = Returned (c \<noteq> UNINITIALIZED)
    \<and> (\<exists>md1. target_metadata (snd (handler_deleteProperty target k \<sigma>)) target
          = Some (ob, m, md1) \<and> map_of (meta_s md1) k = Some UNINITIALIZED)"
proof -
  have valid: "m < length (metas \<sigma>)" and ob: "target < length (objs \<sigma>)" "objs \<sigma> ! target = ob"
      "marker ob = Some m"
    using tm by (simp_all add: target_metadata_iff)
  define \<sigma>1 where "\<sigma>1 = source_set m k UNINITIALIZED \<sigma>"
  define \<sigma>2 where "\<sigma>2 = (if c \<noteq> UNINITIALIZED then update_version m \<sigma>1 else \<sigma>1)"
  have h: "handler_deleteProperty target k \<sigma> = (Returned (c \<noteq> UNINITIALIZED), \<sigma>2)"
    using tm c by (simp add: handler_deleteProperty_def Let_def \<sigma>1_def \<sigma>2_def)
  have s2: "source_v \<sigma>2 m k = Some UNINITIALIZED" and o2: "objs \<sigma>2 = objs \<sigma>"
    by (simp_all add: \<sigma>2_def \<sigma>1_def source_v_update_version source_v_source_set [OF valid]
        update_version_frame source_set_frame)
  have v2: "m < length (metas \<sigma>2)"
    using source_v_valid [OF s2] .
  have "target_metadata \<sigma>2 target = Some (ob, m, metas \<sigma>2 ! m)"
    using ob o2 v2 by (simp add: target_metadata_iff)
  moreover have "map_of (meta_s (metas \<sigma>2 ! m)) k = Some UNINITIALIZED"
    using s2 source_v_nth [OF v2, of k] by simp
  ultimately show ?thesis
    using h by simp
qed

lemma handler_set_returns:
  "target_metadata \<sigma> target = Some (ob, m, md) \<Longrightarrow> \<not> meta_a md \<Longrightarrow>
   fst (handler_set target k x \<sigma>) = Returned True"
  by (auto simp: handler_set_def Let_def sync_length_def split: pkey.splits)

lemma roundtrip:
  assumes w: "wraps \<sigma> i target" and tm: "target_metadata \<sigma> target = Some (ob, m, md)"
    and k: "k \<noteq> STATE_SYMBOL"
    and ok: "map_of (meta_s md) k \<noteq> None \<or> \<not> key_in ob k \<or> writable (get_descriptor ob k)"
  shows
    "(case handler_set target k x \<sigma> of (r1, \<sigma>1) \<Rightarrow>
      case handler_get target k \<sigma>1 of (r2, \<sigma>2) \<Rightarrow>
      case handler_deleteProperty target k \<sigma>2 of (r3, \<sigma>3) \<Rightarrow>
      case handler_has target k \<sigma>3 of (r4, \<sigma>4) \<Rightarrow>
      case handler_get target k \<sigma>4 of (r5, \<sigma>5) \<Rightarrow>
      case handler_deleteProperty target k \<sigma>5 of (r6, \<sigma>6) \<Rightarrow>
        (\<not> meta_a md \<longrightarrow> r1 = Returned True)
        \<and> r2 = Returned (fst (proxy x \<sigma>)) \<and> r3 = Returned True
        \<and> r4 = Returned False \<and> r5 = Returned Undefined \<and> r6 = Returned False)"
proof -
  obtain r1 \<sigma>1 where s1: "handler_set target k x \<sigma> = (r1, \<sigma>1)"
    by (cases "handler_set target k x \<sigma>")
  have r1: "\<not> meta_a md \<longrightarrow> r1 = Returned True"
    using handler_set_returns [OF tm, of k x] s1 by auto
  obtain md1 where t1: "target_metadata \<sigma>1 target = Some (ob, m, md1)"
      "map_of (meta_s md1) k = Some (Live (fst (proxy x \<sigma>)))"
    using handler_set_tracks [OF w tm ok, of x] s1 by auto
  define \<sigma>2 where "\<sigma>2 = \<sigma>1\<lparr>trace := trace \<sigma>1 @ [Read m (Prop k)]\<rparr>"
  have s2: "handler_get target k \<sigma>1 = (Returned (fst (proxy x \<sigma>)), \<sigma>2)"
    using handler_get_tracked [OF t1 k] by (simp add: \<sigma>2_def)
  have t2: "target_metadata \<sigma>2 target = Some (ob, m, md1)"
    using t1(1) by (simp add: \<sigma>2_def target_metadata_trace)
  obtain \<sigma>3 where s3: "handler_deleteProperty target k \<sigma>2 = (Returned True, \<sigma>3)"
    using handler_deleteProperty_tracked [OF t2 t1(2)]
    by (cases "handler_deleteProperty target k \<sigma>2") auto
  obtain md3 where t3: "target_metadata \<sigma>3 target = Some (ob, m, md3)"
      "map_of (meta_s md3) k = Some UNINITIALIZED"
    using handler_deleteProperty_tracked [OF t2 t1(2)] s3 by auto
  define \<sigma>4 where "\<sigma>4 = \<sigma>3\<lparr>trace := trace \<sigma>3 @ [Read m (Prop k)]\<rparr>"
  have s4: "handler_has target k \<sigma>3 = (Returned False, \<sigma>4)"
    using handler_has_tracked [OF t3 k] by (simp add: \<sigma>4_def)
  have t4: "target_metadata \<sigma>4 target = Some (ob, m, md3)"
    using t3(1) by (simp add: \<sigma>4_def target_metadata_trace)
  define \<sigma>5 where "\<sigma>5 = \<sigma>4\<lparr>trace := trace \<sigma>4 @ [Read m (Prop k)]\<rparr>"
  have s5: "handler_get target k \<sigma>4 = (Returned Undefined, \<sigma>5)"
    using handler_get_tracked [OF t4 t3(2) k] by (simp add: \<sigma>5_def)
  have t5: "target_metadata \<sigma>5 target = Some (ob, m, md3)"
    using t4 by (simp add: \<sigma>5_def target_metadata_trace)
  have s6: "fst (handler_deleteProperty target k \<sigma>5) = Returned False"
    using handler_deleteProperty_tracked [OF t5 t3(2)] by simp
  show ?thesis
    using r1 s1 s2 s3 s4 s5 s6 by (simp add: case_prod_beta)
qed

lemma delete_returns_presence:
  assumes tm: "target_metadata \<sigma> target = Some (ob, m, md)" and k: "k \<noteq> STATE_SYMBOL"
  shows "fst (handler_deleteProperty target k \<sigma>) = Returned (present ob md k)
     \<and> fst (handler_has target k \<sigma>) = Returned (present ob md k)"
  using tm k target_metadata_source [OF tm, of k]
    create_source_v [OF target_metadata_valid [OF tm], of ob k]
  by (auto simp: handler_deleteProperty_def handler_has_def Let_def present_def
      split: option.splits)

section \<open>The claims\<close>

text \<open>
  C1. For \<open>w = proxy([1, 2, 3])\<close>, the claim has \<open>w.length = 1\<close> make \<open>w[1]\<close> and
  \<open>w[2]\<close> absent, and \<open>w[5] = 9\<close> on a fresh wrapper make \<open>w.length\<close> read 6. The
  code does neither on a fresh wrapper: the loop of the \<open>set\<close> trap clears only
  sources that exist, the length is synchronised only when its source exists, and
  the raw array is never written, so the later reads create their sources from the
  raw array: \<open>w[1]\<close> is 2, \<open>w[2]\<close> is 3 and \<open>w.length\<close> is 3. (\<open>w.length\<close> does read 1
  after \<open>w.length = 1\<close>; and where the sources exist the code does what the claim
  says, by \<open>length_write_clears_tracked\<close> and \<open>length_synced_when_tracked\<close>.)
\<close>

theorem length_write_on_fresh_wrapper:
  "proxy (Obj 0) (heap_of [array_123]) = (Prox 0, wrapped array_123)
   \<and> (case handler_set 0 (Str ''length'') (Num 1) (wrapped array_123) of (r, \<sigma>1) \<Rightarrow>
        r = Returned True
        \<and> fst (handler_get 0 (Str ''1'') \<sigma>1) = Returned (Num 2)
        \<and> fst (handler_get 0 (Str ''2'') \<sigma>1) = Returned (Num 3)
        \<and> fst (handler_get 0 (Str ''length'') \<sigma>1) = Returned (Num 1))
   \<and> (case handler_set 0 (Str ''5'') (Num 9) (wrapped array_123) of (r, \<sigma>1) \<Rightarrow>
        r = Returned True
        \<and> fst (handler_get 0 (Str ''5'') \<sigma>1) = Returned (Num 9)
        \<and> fst (handler_get 0 (Str ''length'') \<sigma>1) = Returned (Num 3))"
  by code_simp

theorem length_write_on_fresh_wrapper_witness:
  "fst (handler_get 0 (Str ''1'')
          (snd (handler_set 0 (Str ''length'') (Num 1) (wrapped array_123))))
     = Returned (Num 2)
   \<and> fst (handler_get 0 (Str ''length'')
          (snd (handler_set 0 (Str ''5'') (Num 9) (wrapped array_123))))
     = Returned (Num 3)"
  using length_write_on_fresh_wrapper by (simp add: case_prod_beta)















text \<open>
  C7. On a target with its metadata record (whose source map, a \<open>Map\<close>, has each key
  once: \<open>distinct_sources_invariant\<close>), key enumeration reads the version source,
  which is all it does to the state, and returns the raw target's own keys in raw order without the keys whose
  source holds the tombstone, followed in the order of the source map by the keys
  that exist only as a live source and are not in the raw key list. A key exists
  only as a live source when its source holds a value and \<open>key in target\<close> is
  false, which is the test of the code: a key that the target inherits is on the
  target. Every such key is in the enumeration.
\<close>

theorem ownKeys_enumeration:
  assumes "target_metadata \<sigma> target = Some (ob, m, md)" "distinct (map fst (meta_s md))"
  shows "handler_ownKeys target \<sigma>
      = (Returned (ownKeys_spec ob md), \<sigma>\<lparr>trace := trace \<sigma> @ [Read m Version]\<rparr>)
    \<and> (\<forall>key. live md key \<and> \<not> key_in ob key \<longrightarrow> key \<in> set (ownKeys_spec ob md))"
proof -
  have "\<forall>key. live md key \<longrightarrow> key \<in> set (map fst (meta_s md))"
    by (auto simp: live_def split: option.splits cell.splits dest!: map_of_SomeD) force
  moreover have "\<forall>key. \<not> key_in ob key \<longrightarrow> key \<notin> set (own_keys ob)"
    using own_keys_in by blast
  moreover have
    "[key \<leftarrow> map fst (meta_s md). (live md key \<and> \<not> key_in ob key) \<and> key \<notin> set (own_keys ob)]
      = [key \<leftarrow> map fst (meta_s md). live md key \<and> \<not> key_in ob key]"
    using own_keys_in by (intro filter_cong) auto
  ultimately show ?thesis
    using assms filter_alist_keys [OF assms(2), of "\<lambda>k. \<not> key_in ob k"]
    by (auto simp: handler_ownKeys_def ownKeys_spec_def live_def source_get_def)
qed

theorem ownKeys_enumeration_witness:
  "target_metadata written_heap 0
     = Some (empty_object\<lparr>marker := Some 0\<rparr>, 0,
             wrapped_meta False [(Str ''a'', Live (Num 1))] 1)
   \<and> fst (handler_ownKeys 0 written_heap) = Returned [STATE_SYMBOL, Str ''a'']
   \<and> new_events written_heap (snd (handler_ownKeys 0 written_heap)) = [Read 0 Version]
   \<and> get_descriptor (empty_object\<lparr>marker := Some 0\<rparr>) (Str ''a'') = None"
proof -
  have tm: "target_metadata written_heap 0
      = Some (empty_object\<lparr>marker := Some 0\<rparr>, 0,
              wrapped_meta False [(Str ''a'', Live (Num 1))] 1)"
    by code_simp
  have h: "distinct (map fst (meta_s (wrapped_meta False [(Str ''a'', Live (Num 1))] 1)))"
      "ownKeys_spec (empty_object\<lparr>marker := Some 0\<rparr>)
         (wrapped_meta False [(Str ''a'', Live (Num 1))] 1) = [STATE_SYMBOL, Str ''a'']"
      "get_descriptor (empty_object\<lparr>marker := Some 0\<rparr>) (Str ''a'') = None"
    by code_simp+
  show ?thesis
    using tm h ownKeys_enumeration [OF tm h(1)] by (simp add: new_events_def)
qed

text \<open>
  C8. On a target \<open>t\<close> with its wrapper, and for a key other than the marker that
  has a source, or is not on \<open>t\<close>, or is an own writable data property of \<open>t\<close>:
  after a write of \<open>x\<close> a read of the key yields \<open>proxy(x)\<close> (which is \<open>x\<close> for a
  primitive); a delete then returns \<open>true\<close>, after which a \<open>has\<close> check is false,
  a read yields \<open>undefined\<close> and a second delete returns \<open>false\<close>. The write
  returns \<open>true\<close> on a target that is no array. On every target with its metadata
  record and for every key but the marker, a delete returns whether the key
  existed, which is what a \<open>has\<close> check in its place returns. For \<open>w = proxy({})\<close>,
  the key \<open>a\<close> and the value 1 this is the round trip of the claim.
\<close>

theorem write_read_delete_roundtrip:
  "(wraps \<sigma> i target \<and> target_metadata \<sigma> target = Some (ob, m, md) \<and> k \<noteq> STATE_SYMBOL
     \<and> (map_of (meta_s md) k \<noteq> None \<or> \<not> key_in ob k \<or> writable (get_descriptor ob k))
    \<longrightarrow>
      (case handler_set target k x \<sigma> of (r1, \<sigma>1) \<Rightarrow>
       case handler_get target k \<sigma>1 of (r2, \<sigma>2) \<Rightarrow>
       case handler_deleteProperty target k \<sigma>2 of (r3, \<sigma>3) \<Rightarrow>
       case handler_has target k \<sigma>3 of (r4, \<sigma>4) \<Rightarrow>
       case handler_get target k \<sigma>4 of (r5, \<sigma>5) \<Rightarrow>
       case handler_deleteProperty target k \<sigma>5 of (r6, \<sigma>6) \<Rightarrow>
         (\<not> meta_a md \<longrightarrow> r1 = Returned True)
         \<and> r2 = Returned (fst (proxy x \<sigma>)) \<and> r3 = Returned True
         \<and> r4 = Returned False \<and> r5 = Returned Undefined \<and> r6 = Returned False))
   \<and> (target_metadata \<sigma> target = Some (ob, m, md) \<and> k \<noteq> STATE_SYMBOL
    \<longrightarrow> fst (handler_deleteProperty target k \<sigma>) = Returned (present ob md k)
        \<and> fst (handler_has target k \<sigma>) = Returned (present ob md k))"
proof (rule conjI; rule impI)
  assume h: "wraps \<sigma> i target \<and> target_metadata \<sigma> target = Some (ob, m, md)
    \<and> k \<noteq> STATE_SYMBOL
    \<and> (map_of (meta_s md) k \<noteq> None \<or> \<not> key_in ob k \<or> writable (get_descriptor ob k))"
  show "case handler_set target k x \<sigma> of (r1, \<sigma>1) \<Rightarrow>
       case handler_get target k \<sigma>1 of (r2, \<sigma>2) \<Rightarrow>
       case handler_deleteProperty target k \<sigma>2 of (r3, \<sigma>3) \<Rightarrow>
       case handler_has target k \<sigma>3 of (r4, \<sigma>4) \<Rightarrow>
       case handler_get target k \<sigma>4 of (r5, \<sigma>5) \<Rightarrow>
       case handler_deleteProperty target k \<sigma>5 of (r6, \<sigma>6) \<Rightarrow>
         (\<not> meta_a md \<longrightarrow> r1 = Returned True)
         \<and> r2 = Returned (fst (proxy x \<sigma>)) \<and> r3 = Returned True
         \<and> r4 = Returned False \<and> r5 = Returned Undefined \<and> r6 = Returned False"
    by (rule roundtrip [of \<sigma> i target ob m md k x]) (use h in blast)+
next
  assume h: "target_metadata \<sigma> target = Some (ob, m, md) \<and> k \<noteq> STATE_SYMBOL"
  show "fst (handler_deleteProperty target k \<sigma>) = Returned (present ob md k)
      \<and> fst (handler_has target k \<sigma>) = Returned (present ob md k)"
    by (rule delete_returns_presence [of \<sigma> target ob m md k]) (use h in blast)+
qed

theorem write_read_delete_roundtrip_witness:
  "wraps (wrapped empty_object) 0 0
   \<and> target_metadata (wrapped empty_object) 0
       = Some (empty_object\<lparr>marker := Some 0\<rparr>, 0, wrapped_meta False [] 0)
   \<and> \<not> key_in (empty_object\<lparr>marker := Some 0\<rparr>) (Str ''a'')
   \<and> (case handler_set 0 (Str ''a'') (Num 1) (wrapped empty_object) of (r1, \<sigma>1) \<Rightarrow>
       case handler_get 0 (Str ''a'') \<sigma>1 of (r2, \<sigma>2) \<Rightarrow>
       case handler_deleteProperty 0 (Str ''a'') \<sigma>2 of (r3, \<sigma>3) \<Rightarrow>
       case handler_has 0 (Str ''a'') \<sigma>3 of (r4, \<sigma>4) \<Rightarrow>
       case handler_get 0 (Str ''a'') \<sigma>4 of (r5, \<sigma>5) \<Rightarrow>
       case handler_deleteProperty 0 (Str ''a'') \<sigma>5 of (r6, \<sigma>6) \<Rightarrow>
         r1 = Returned True \<and> r2 = Returned (Num 1) \<and> r3 = Returned True
         \<and> r4 = Returned False \<and> r5 = Returned Undefined \<and> r6 = Returned False)
   \<and> fst (handler_deleteProperty 0 (Str ''a'') (wrapped empty_object)) = Returned False"
proof -
  have w: "wraps (wrapped empty_object) 0 0"
    by code_simp
  have tm: "target_metadata (wrapped empty_object) 0
      = Some (empty_object\<lparr>marker := Some 0\<rparr>, 0, wrapped_meta False [] 0)"
    by code_simp
  have k: "Str ''a'' \<noteq> STATE_SYMBOL"
    by simp
  have a: "\<not> key_in (empty_object\<lparr>marker := Some 0\<rparr>) (Str ''a'')"
      "\<not> present (empty_object\<lparr>marker := Some 0\<rparr>) (wrapped_meta False [] 0) (Str ''a'')"
      "\<not> meta_a (wrapped_meta False [] 0)"
      "fst (proxy (Num 1) (wrapped empty_object)) = Num 1"
    by code_simp+
  note law = write_read_delete_roundtrip
      [of "wrapped empty_object" 0 0 "empty_object\<lparr>marker := Some 0\<rparr>" 0
          "wrapped_meta False [] 0" "Str ''a''" "Num 1"]
  show ?thesis
    using w tm k a law by (simp add: case_prod_beta)
qed



text \<open>
  C10. The claim has a read return the value of the source for every key that has a
  source. The read of the marker is not such a read: \<open>get\<close> returns the target's
  metadata record for \<open>STATE_SYMBOL\<close> whatever a source for that key holds, and a
  write of the marker through the wrapper makes one. What holds: for every other
  key that has a source, on a target with its metadata record, a read returns the
  value of the source, or \<open>undefined\<close> for the tombstone, and \<open>has\<close> returns whether
  the source holds a value; both register the dependency on the source and change
  nothing else, and neither result depends on the own properties of the target. A
  read of the marker returns the metadata record and changes nothing.
\<close>

theorem source_shadows_target:
  assumes "target_metadata \<sigma> target = Some (ob, m, md)"
    and "map_of (meta_s md) k = Some c" and "k \<noteq> STATE_SYMBOL"
  shows "handler_get target k \<sigma>
      = (Returned (case c of UNINITIALIZED \<Rightarrow> Undefined | Live x \<Rightarrow> x),
         \<sigma>\<lparr>trace := trace \<sigma> @ [Read m (Prop k)]\<rparr>)
    \<and> handler_has target k \<sigma>
      = (Returned (c \<noteq> UNINITIALIZED), \<sigma>\<lparr>trace := trace \<sigma> @ [Read m (Prop k)]\<rparr>)
    \<and> fst (handler_get target k (\<sigma>\<lparr>objs := (objs \<sigma>)[target := ob\<lparr>props := ps\<rparr>]\<rparr>))
        = fst (handler_get target k \<sigma>)
    \<and> fst (handler_has target k (\<sigma>\<lparr>objs := (objs \<sigma>)[target := ob\<lparr>props := ps\<rparr>]\<rparr>))
        = fst (handler_has target k \<sigma>)
    \<and> handler_get target STATE_SYMBOL \<sigma> = (Returned (Meta m), \<sigma>)"
proof -
  have marker: "handler_get target STATE_SYMBOL \<sigma> = (Returned (Meta m), \<sigma>)"
    using assms(1)
    by (auto simp: handler_get_def state_symbol_of_def target_metadata_def nth_opt_def
        split: option.splits if_splits)
  have g: "handler_get target k \<sigma>
      = (Returned (case c of UNINITIALIZED \<Rightarrow> Undefined | Live x \<Rightarrow> x),
         \<sigma>\<lparr>trace := trace \<sigma> @ [Read m (Prop k)]\<rparr>)"
    and h: "handler_has target k \<sigma>
      = (Returned (c \<noteq> UNINITIALIZED), \<sigma>\<lparr>trace := trace \<sigma> @ [Read m (Prop k)]\<rparr>)"
    if "target_metadata \<sigma> target = Some (ob, m, md)" for \<sigma> ob
    using that assms(2,3) target_metadata_source [OF that, of k]
    by (auto simp: handler_get_def handler_has_def Let_def source_get_def)
  have "target_metadata (\<sigma>\<lparr>objs := (objs \<sigma>)[target := ob\<lparr>props := ps\<rparr>]\<rparr>) target
      = Some (ob\<lparr>props := ps\<rparr>, m, md)"
    using assms(1)
    by (auto simp: target_metadata_def nth_opt_def split: option.splits if_splits)
  from g [OF this] h [OF this] g [OF assms(1)] h [OF assms(1)] marker show ?thesis
    by simp
qed

theorem source_shadows_target_witness:
  "target_metadata written_heap 0
     = Some (empty_object\<lparr>marker := Some 0\<rparr>, 0,
             wrapped_meta False [(Str ''a'', Live (Num 1))] 1)
   \<and> fst (handler_get 0 (Str ''a'') written_heap) = Returned (Num 1)
   \<and> fst (handler_has 0 (Str ''a'') written_heap) = Returned True
   \<and> fst (handler_get 0 (Str ''a'')
        (written_heap\<lparr>objs := (objs written_heap)
           [0 := empty_object\<lparr>marker := Some 0, props := [(Str ''a'', Data (Num 7) True)]\<rparr>]\<rparr>))
       = Returned (Num 1)"
proof -
  have tm: "target_metadata written_heap 0
      = Some (empty_object\<lparr>marker := Some 0\<rparr>, 0,
              wrapped_meta False [(Str ''a'', Live (Num 1))] 1)"
    by code_simp
  have h: "map_of (meta_s (wrapped_meta False [(Str ''a'', Live (Num 1))] 1)) (Str ''a'')
        = Some (Live (Num 1))" "Str ''a'' \<noteq> STATE_SYMBOL"
    by code_simp+
  show ?thesis
    using tm source_shadows_target [OF tm h, of "[(Str ''a'', Data (Num 7) True)]"]
    by simp
qed

theorem marker_source_counterexample:
  "(case handler_set 0 STATE_SYMBOL (Num 5) (wrapped empty_object) of (r, \<sigma>1) \<Rightarrow>
      r = Returned True
      \<and> source_v \<sigma>1 0 STATE_SYMBOL = Some (Live (Num 5))
      \<and> fst (handler_get 0 STATE_SYMBOL \<sigma>1) = Returned (Meta 0)
      \<and> fst (handler_get 0 STATE_SYMBOL \<sigma>1) \<noteq> Returned (Num 5))"
  by code_simp

end
